theory Spec2Isabelle
  imports Main "HOL-Library.Word" "HOL-Library.Sublist"
begin

section \<open>Data model\<close>

text \<open>
  A C \<open>char\<close> is a byte; a C string is the list of its bytes before the terminating
  zero byte. Addresses and registers of the x86-64 subordinate are 64-bit words, the
  wait status is a 32-bit \<open>int\<close>.
\<close>

type_synonym byte = "8 word"
type_synonym addr = "64 word"

text \<open>
  The build-time constants come from \<open>pgoptionfiles.h\<close> and \<open>limits.h\<close>, which are
  not part of the source file; they are parameters of the model.
\<close>

record config =
  PATH_MAX :: int
  PGOPTIONFILES_DELIMITER :: byte
  PGOPTIONFILES_READ :: int
  PGOPTIONFILES_USE_TIMEOUT :: int
  PGOPTIONFILES_MAX_FILE_NAMES_LIST_SIZE :: nat

text \<open>The size of \<open>char error_list[4096]\<close> declared in \<open>main\<close>.\<close>

definition error_list_size :: nat where
  "error_list_size = 4096"

text \<open>The numbers of the five monitored syscalls, as the source defines them.\<close>

definition SYSCALL_OPEN :: "64 word" where "SYSCALL_OPEN = 2"
definition SYSCALL_STAT :: "64 word" where "SYSCALL_STAT = 4"
definition SYSCALL_LSTAT :: "64 word" where "SYSCALL_LSTAT = 6"
definition SYSCALL_ACCESS :: "64 word" where "SYSCALL_ACCESS = 21"
definition SYSCALL_OPENAT :: "64 word" where "SYSCALL_OPENAT = 257"

text \<open>The signal numbers of Linux on x86-64 (\<open>signal.h\<close>).\<close>

definition SIGKILL :: nat where "SIGKILL = 9"
definition SIGTERM :: nat where "SIGTERM = 15"
definition SIGSTOP :: nat where "SIGSTOP = 19"

text \<open>The registers of \<open>struct user_regs_struct\<close> that the tracer reads or writes.\<close>

record user_regs_struct =
  orig_rax :: "64 word"
  rdi :: "64 word"
  rsi :: "64 word"

text \<open>
  What the tracer observes in one iteration of its loop: the return value of
  \<open>ptrace(PTRACE_SYSCALL)\<close> (not called in iteration 0), the return value of
  \<open>waitpid\<close> (with the timeout build: of the last poll) and the value \<open>status\<close> holds
  after it, the register snapshot \<open>PTRACE_GETREGS\<close> delivers, and the subordinate's
  memory as \<open>PTRACE_PEEKDATA\<close> reads it: the word at an address, or \<open>None\<close> when
  the call sets \<open>errno\<close>.
\<close>

record event =
  ptrace_syscall :: int
  waitpid_result :: int
  wstatus :: "32 word"
  getregs :: user_regs_struct
  peekdata :: "addr \<Rightarrow> 64 word option"

text \<open>
  The calls the tracer makes on the subordinate, in order. One \<open>WAITPID\<close> stands for
  one wait for the subordinate: the blocking \<open>waitpid(pid, &status, 0)\<close>, or, when
  \<open>PGOPTIONFILES_USE_TIMEOUT\<close> is not 0, the polls \<open>waitpid(pid, &status, WNOHANG)\<close>
  of the timeout loop (at most 15, with the sleeps between them) up to the first whose
  result is not 0; \<open>waitpid_result\<close> of the event is the result of the last of them.
\<close>

datatype call =
    PTRACE_SYSCALL
  | WAITPID
  | PTRACE_GETREGS
  | PTRACE_PEEKDATA addr
  | PTRACE_SETREGS user_regs_struct
  | KILL nat

text \<open>
  The variables of \<open>pgoptionfiles_tracer\<close>. \<open>file_names_list\<close> and \<open>error_list\<close>
  hold the bytes of the caller's two strings before their terminators.
\<close>

record tracer_state =
  trace_number :: "32 word"
  retcode :: int
  file_names_list :: "byte list"
  error_list :: "byte list"
  calls :: "call list"

text \<open>
  How one iteration of a loop ends: it goes on to the next iteration (\<open>continue\<close> or the
  end of the body), it leaves the loop (\<open>break\<close>), or it writes past the end of a
  \<open>char\<close> array, where C defines no behaviour.
\<close>

datatype 'a ctl = Continue 'a | Break 'a | Overflow 'a

text \<open>
  A call of the tracer on a finite list of observations: it returns, it is still
  waiting for the subordinate when the observations end, or its behaviour is undefined.
\<close>

datatype 'a outcome = Returned 'a | Blocked 'a | Undefined 'a

section \<open>C strings\<close>

text \<open>The bytes of a string literal.\<close>

definition bytes :: "string \<Rightarrow> byte list" where
  "bytes s = map of_char s"

text \<open>The C string that starts an array of bytes: the bytes before the first zero byte.\<close>

definition c_str :: "byte list \<Rightarrow> byte list" where
  "c_str buf = takeWhile (\<lambda>c. c \<noteq> 0) buf"

text \<open>\<open>strstr\<close>: the tail of the haystack at the first occurrence, \<open>None\<close> for \<open>NULL\<close>.\<close>

fun strstr :: "byte list \<Rightarrow> byte list \<Rightarrow> byte list option" where
  "strstr [] needle = (if needle = [] then Some [] else None)"
| "strstr (h # hs) needle =
     (if prefix needle (h # hs) then Some (h # hs) else strstr hs needle)"

text \<open>\<open>strncmp(s, t, n) == 0\<close> on two C strings.\<close>

definition strncmp_eq :: "byte list \<Rightarrow> byte list \<Rightarrow> nat \<Rightarrow> bool" where
  "strncmp_eq s t n = (take n s = take n t)"

text \<open>The conversion \<open>%x\<close> of \<open>sprintf\<close>.\<close>

definition hex_digit :: "nat \<Rightarrow> byte" where
  "hex_digit d = bytes ''0123456789abcdef'' ! d"

fun hex :: "nat \<Rightarrow> byte list" where
  "hex n = (if n < 16 then [hex_digit n] else hex (n div 16) @ [hex_digit (n mod 16)])"

section \<open>The wait status macros\<close>

text \<open>The macros of \<open>sys/wait.h\<close> as glibc defines them on Linux.\<close>

definition WIFEXITED :: "32 word \<Rightarrow> bool" where
  "WIFEXITED s = (and s 0x7f = 0)"

definition WIFSTOPPED :: "32 word \<Rightarrow> bool" where
  "WIFSTOPPED s = (and s 0xff = 0x7f)"

definition WSTOPSIG :: "32 word \<Rightarrow> nat" where
  "WSTOPSIG s = unat (drop_bit 8 (and s 0xff00))"

section \<open>Reading a string from the subordinate\<close>

text \<open>
  Byte \<open>src_word_offset\<close> of the word that \<open>PTRACE_PEEKDATA\<close> returned, read through
  \<open>(uint8_t *)&word\<close> on little-endian x86-64.
\<close>

definition word_byte :: "64 word \<Rightarrow> nat \<Rightarrow> byte" where
  "word_byte word src_word_offset = ucast (drop_bit (8 * src_word_offset) word)"

text \<open>
  The inner loop of \<open>pgoptionfiles_copy_from_tracee\<close> over the \<open>sizeof(word) = 8\<close>
  bytes of one word. \<open>dest\<close> is the bytes stored so far, so \<open>dest_offset\<close> is its
  length. The result is the last value of \<open>c\<close> and the bytes stored.
\<close>

function copy_word :: "int \<Rightarrow> 64 word \<Rightarrow> nat \<Rightarrow> byte \<Rightarrow> byte list \<Rightarrow> byte \<times> byte list" where
  "copy_word path_max word src_word_offset c0 dest =
     (if src_word_offset < 8 then
        let c = word_byte word src_word_offset;
            c = (if int (length dest) \<ge> path_max - 1 then 0 else c)
        in if c = 0 then (c, dest)
           else copy_word path_max word (src_word_offset + 1) c (dest @ [c])
      else (c0, dest))"
  by pat_completeness auto
termination
  by (relation "measure (\<lambda>(pm, w, k, c, d). 8 - k)") auto

text \<open>
  The outer loop over the words at \<open>src + sizeof(word) * word_number\<close>. It ends when
  \<open>PTRACE_PEEKDATA\<close> fails or when the inner loop left \<open>c\<close> zero. The result is the
  bytes stored and the addresses read.
\<close>

function copy_words ::
  "int \<Rightarrow> (addr \<Rightarrow> 64 word option) \<Rightarrow> addr \<Rightarrow> nat \<Rightarrow> byte list \<Rightarrow> addr list
     \<Rightarrow> byte list \<times> addr list" where
  "copy_words path_max peek src word_number dest log =
     (let a = src + 8 * of_nat word_number in
      case peek a of
        None \<Rightarrow> (dest, log @ [a])
      | Some word \<Rightarrow>
          (case copy_word path_max word 0 0 dest of (c, dest') \<Rightarrow>
             if c = 0 then (dest', log @ [a])
             else copy_words path_max peek src (word_number + 1) dest' (log @ [a])))"
  by pat_completeness auto
termination
proof (relation "measure (\<lambda>(pm, peek, src, n, d, log). nat (pm - int (length d)))", goal_cases)
  case 1
  show ?case by simp
next
  case (2 pm peek src n d log a word c d')
  have grows: "copy_word pm w k c0 d0 = (c1, d1) \<Longrightarrow> c1 \<noteq> 0 \<Longrightarrow> k < 8 \<Longrightarrow>
      length d0 < length d1 \<and> int (length d1) < pm" for w k c0 d0 c1 d1
  proof (induction pm w k c0 d0 rule: copy_word.induct)
    case (1 pm w k c0 d0)
    let ?c = "if int (length d0) \<ge> pm - 1 then 0 else word_byte w k"
    from "1.prems" have nz: "?c \<noteq> 0"
      by (subst (asm) copy_word.simps) (auto simp: Let_def split: if_splits)
    hence room: "int (length d0) < pm - 1" by (auto split: if_splits)
    from "1.prems" nz have rec: "copy_word pm w (k + 1) ?c (d0 @ [?c]) = (c1, d1)"
      by (subst (asm) copy_word.simps) (auto simp: Let_def split: if_splits)
    show ?case
    proof (cases "k + 1 < 8")
      case True
      from "1.IH"[OF \<open>k < 8\<close> refl refl _ rec \<open>c1 \<noteq> 0\<close> True] nz
      show ?thesis by (auto split: if_splits)
    next
      case False
      with rec have "d1 = d0 @ [?c]"
        by (subst (asm) copy_word.simps) auto
      with room show ?thesis by auto
    qed
  qed
  from 2 have "copy_word pm word 0 0 d = (c, d')" by simp
  from grows[OF this \<open>c \<noteq> 0\<close>] show ?case by auto
qed

text \<open>
  The result of \<open>pgoptionfiles_copy_from_tracee\<close>: the bytes it stored at
  \<open>dest[0]\<close>, \<open>dest[1]\<close>, ... (the terminator included), its return value, and the
  addresses it read with \<open>PTRACE_PEEKDATA\<close>.
\<close>

record copy_result =
  dest :: "byte list"
  return_value :: int
  peeked :: "addr list"

definition pgoptionfiles_copy_from_tracee ::
  "config \<Rightarrow> (addr \<Rightarrow> 64 word option) \<Rightarrow> addr \<Rightarrow> copy_result" where
  "pgoptionfiles_copy_from_tracee cfg peek src =
     (if src = 0 then \<lparr>dest = [], return_value = 0, peeked = []\<rparr>
      else case copy_words (PATH_MAX cfg) peek src 0 [] [] of
             (d, log) \<Rightarrow> \<lparr>dest = d @ [0], return_value = int (length d), peeked = log\<rparr>)"

text \<open>
  The byte at offset \<open>i\<close> from \<open>src\<close> in the subordinate's memory, as reads of
  whole words from \<open>src\<close> on deliver it: \<open>None\<close> where the read of its word fails.
\<close>

definition remote_byte :: "(addr \<Rightarrow> 64 word option) \<Rightarrow> addr \<Rightarrow> nat \<Rightarrow> byte option" where
  "remote_byte peek src i =
     map_option (\<lambda>word. word_byte word (i mod 8)) (peek (src + 8 * of_nat (i div 8)))"

section \<open>The tracer\<close>

text \<open>
  \<open>strcat(error_list, msg); retcode= rc; break;\<close> The caller's array has
  \<open>error_list_size\<close> bytes, and the string with its terminator must fit.
\<close>

definition error_break :: "tracer_state \<Rightarrow> byte list \<Rightarrow> int \<Rightarrow> tracer_state ctl" where
  "error_break st msg rc =
     (if length (error_list st) + length msg < error_list_size
      then Break (st\<lparr>error_list := error_list st @ msg, retcode := rc\<rparr>)
      else Overflow st)"

text \<open>
  The body of \<open>if ((trace_number %2) == 1)\<close>: a syscall-entry stop. \<open>file_name\<close> is
  the array \<open>char file_name[PATH_MAX]\<close> as a list of the bytes stored in it from index 0.
\<close>

definition syscall_entry :: "config \<Rightarrow> event \<Rightarrow> tracer_state \<Rightarrow> tracer_state ctl" where
  "syscall_entry cfg ev st0 =
     (let registers = getregs ev;
          st1 = st0\<lparr>calls := calls st0 @ [PTRACE_GETREGS]\<rparr>;
          psi_entry_nr = orig_rax registers
      in
      if psi_entry_nr = SYSCALL_OPENAT \<or> psi_entry_nr = SYSCALL_ACCESS
         \<or> psi_entry_nr = SYSCALL_STAT \<or> psi_entry_nr = SYSCALL_OPEN
         \<or> psi_entry_nr = SYSCALL_LSTAT
      then
        let copied =
              (if psi_entry_nr = SYSCALL_OPENAT
               then pgoptionfiles_copy_from_tracee cfg (peekdata ev) (rsi registers)
               else pgoptionfiles_copy_from_tracee cfg (peekdata ev) (rdi registers));
            copy_result = return_value copied;
            st2 = st1\<lparr>calls := calls st1 @ map PTRACE_PEEKDATA (peeked copied)\<rparr>;
            file_name = PGOPTIONFILES_DELIMITER cfg # dest copied
        in
        if int (length file_name) > PATH_MAX cfg then Overflow st2
        else if copy_result > 0 then
          if strncmp_eq (c_str (tl file_name)) (bytes ''Error: '') 7
          then error_break st2 (c_str (tl file_name)) (- 6)
          else if strstr (c_str file_name) (bytes ''my.cnf'') = None then Continue st2
          else
            let file_name_length = length (c_str file_name);
                patched =
                  (if psi_entry_nr = SYSCALL_OPENAT
                   then registers\<lparr>rsi := rsi registers + of_nat file_name_length\<rparr>
                   else registers\<lparr>rdi := rdi registers + of_nat file_name_length\<rparr>);
                st3 = (if PGOPTIONFILES_READ cfg = 0
                       then st2\<lparr>calls := calls st2 @ [PTRACE_SETREGS patched]\<rparr>
                       else st2)
            in
            if int file_name_length + 1 \<ge> PATH_MAX cfg then Overflow st3
            else
              let file_name = take file_name_length file_name
                                @ [PGOPTIONFILES_DELIMITER cfg, 0]
              in
              if strstr (file_names_list st3) (c_str file_name) \<noteq> None then Continue st3
              else if length (file_names_list st3) + length (c_str file_name)
                        \<ge> PGOPTIONFILES_MAX_FILE_NAMES_LIST_SIZE cfg
              then Break st3
              else Continue (st3\<lparr>file_names_list := file_names_list st3 @ c_str file_name\<rparr>)
        else Continue st2
      else Continue st1)"

text \<open>The body of the \<open>for\<close> loop of \<open>pgoptionfiles_tracer\<close>.\<close>

definition tracer_iteration :: "config \<Rightarrow> event \<Rightarrow> tracer_state \<Rightarrow> tracer_state ctl" where
  "tracer_iteration cfg ev st0 =
     (if trace_number st0 > 0 \<and> ptrace_syscall ev < 0
      then Break (st0\<lparr>calls := calls st0 @ [PTRACE_SYSCALL], retcode := - 1\<rparr>)
      else
        let st1 = st0\<lparr>calls := calls st0
                      @ (if trace_number st0 > 0 then [PTRACE_SYSCALL] else []) @ [WAITPID]\<rparr>
        in
        if PGOPTIONFILES_USE_TIMEOUT cfg \<noteq> 0 \<and> waitpid_result ev = 0
        then error_break (st1\<lparr>calls := calls st1 @ [KILL SIGTERM, WAITPID]\<rparr>)
               (bytes ''Error: waitpid timeout.'') (- 1)
        else if waitpid_result ev < 0
        then (if WIFEXITED (wstatus ev) then Break (st1\<lparr>retcode := 0\<rparr>)
              else error_break st1 (bytes ''Error: waitpid failed.'') (- 2))
        else if WIFEXITED (wstatus ev) then Break (st1\<lparr>retcode := 0\<rparr>)
        else if trace_number st1 = 0
        then (if \<not> WIFSTOPPED (wstatus ev) \<or> WSTOPSIG (wstatus ev) \<noteq> SIGSTOP
              then error_break (st1\<lparr>calls := calls st1 @ [KILL SIGKILL]\<rparr>)
                     (bytes ''Error: waitpid status: '' @ hex (unat (wstatus ev)) @ bytes ''.'')
                     (- 3)
              else Continue st1)
        else if trace_number st1 mod 2 = 1 then syscall_entry cfg ev st1
        else Continue st1)"

text \<open>
  The \<open>for\<close> loop over the observations, one per iteration; \<open>++trace_number\<close> wraps
  as \<open>unsigned int\<close> does.
\<close>

fun tracer_loop :: "config \<Rightarrow> event list \<Rightarrow> tracer_state \<Rightarrow> tracer_state ctl" where
  "tracer_loop cfg [] st = Continue st"
| "tracer_loop cfg (ev # evs) st =
     (case tracer_iteration cfg ev st of
        Continue st' \<Rightarrow> tracer_loop cfg evs (st'\<lparr>trace_number := trace_number st' + 1\<rparr>)
      | Break st' \<Rightarrow> Break st'
      | Overflow st' \<Rightarrow> Overflow st')"

text \<open>
  The block after the loop: \<open>Eliminate initial or duplicate or trail delimiters\<close>. The
  first argument after the delimiter is the string from \<open>file_names_list[i_in]\<close> on,
  the second the bytes already stored at indices below \<open>i_out\<close>. The first equation is
  \<open>if (c == '\0') break;\<close>, reached only with \<open>i_out = 0\<close> on an empty string; the
  second is \<open>if (file_names_list[i_in] == '\0')\<close>, which drops the last byte.
\<close>

fun eliminate :: "byte \<Rightarrow> byte list \<Rightarrow> byte list \<Rightarrow> byte list" where
  "eliminate d [] out = out"
| "eliminate d [c] out = out"
| "eliminate d (c # n # rest) out =
     (if c \<noteq> d then eliminate d (n # rest) (out @ [c])
      else if out = [] then eliminate d (n # rest) out
      else if n = d then eliminate d (n # rest) out
      else eliminate d (n # rest) (out @ [c]))"

text \<open>
  The variables of the tracer before the first iteration: the caller's two strings,
  \<open>retcode= 0\<close> and \<open>trace_number= 0\<close>.
\<close>

definition initial_state :: "byte list \<Rightarrow> byte list \<Rightarrow> tracer_state" where
  "initial_state file_names_list0 error_list0 =
     \<lparr>trace_number = 0, retcode = 0, file_names_list = file_names_list0,
      error_list = error_list0, calls = []\<rparr>"

text \<open>
  \<open>pgoptionfiles_tracer\<close> on a list of observations: the loop, then the block after
  it. The result holds the return value and the two strings handed back to the caller.
\<close>

definition pgoptionfiles_tracer ::
  "config \<Rightarrow> event list \<Rightarrow> byte list \<Rightarrow> byte list \<Rightarrow> tracer_state outcome" where
  "pgoptionfiles_tracer cfg evs file_names_list0 error_list0 =
     (case tracer_loop cfg evs (initial_state file_names_list0 error_list0) of
        Break st \<Rightarrow>
          Returned (st\<lparr>file_names_list :=
                        eliminate (PGOPTIONFILES_DELIMITER cfg) (file_names_list st) []\<rparr>)
      | Continue st \<Rightarrow> Blocked st
      | Overflow st \<Rightarrow> Undefined st)"

text \<open>The call in \<open>main\<close>, after a successful \<open>fork\<close>, in the parent.\<close>

definition main_tracer :: "config \<Rightarrow> event list \<Rightarrow> tracer_state outcome" where
  "main_tracer cfg evs = pgoptionfiles_tracer cfg evs [] (bytes ''(pgoptionfiles)'')"

section \<open>Notions used to state the properties\<close>

text \<open>The variables an iteration ends with, however it ends.\<close>

definition ctl_state :: "'a ctl \<Rightarrow> 'a" where
  "ctl_state r = (case r of Continue s \<Rightarrow> s | Break s \<Rightarrow> s | Overflow s \<Rightarrow> s)"

text \<open>
  The register that holds the address of the path: the second argument of \<open>openat\<close>,
  the first argument of the other syscalls.
\<close>

definition path_argument :: "user_regs_struct \<Rightarrow> addr" where
  "path_argument registers =
     (if orig_rax registers = SYSCALL_OPENAT then rsi registers else rdi registers)"

text \<open>The C string the string reader extracts at a syscall-entry stop.\<close>

definition entry_path :: "config \<Rightarrow> event \<Rightarrow> byte list" where
  "entry_path cfg ev =
     c_str (dest (pgoptionfiles_copy_from_tracee cfg (peekdata ev) (path_argument (getregs ev))))"

text \<open>The numbers of \<open>open\<close>, \<open>stat\<close>, \<open>lstat\<close>, \<open>access\<close> and \<open>openat\<close>.\<close>

definition monitored :: "64 word \<Rightarrow> bool" where
  "monitored nr \<longleftrightarrow> nr = 2 \<or> nr = 4 \<or> nr = 6 \<or> nr = 21 \<or> nr = 257"

text \<open>The addresses read with \<open>PTRACE_PEEKDATA\<close>, in the order of the calls.\<close>

definition peek_addrs :: "call list \<Rightarrow> addr list" where
  "peek_addrs cs = concat (map (\<lambda>c. case c of PTRACE_PEEKDATA a \<Rightarrow> [a] | _ \<Rightarrow> []) cs)"

text \<open>The registers with \<open>n\<close> added to the one that holds the address of the path.\<close>

definition patch :: "user_regs_struct \<Rightarrow> nat \<Rightarrow> user_regs_struct" where
  "patch registers n =
     (if orig_rax registers = SYSCALL_OPENAT
      then registers\<lparr>rsi := rsi registers + of_nat n\<rparr>
      else registers\<lparr>rdi := rdi registers + of_nat n\<rparr>)"

text \<open>The calls made at a syscall-entry stop of a monitored syscall to extract the path.\<close>

definition entry_log :: "config \<Rightarrow> event \<Rightarrow> call list" where
  "entry_log cfg ev =
     PTRACE_GETREGS # map PTRACE_PEEKDATA
       (peeked (pgoptionfiles_copy_from_tracee cfg (peekdata ev) (path_argument (getregs ev))))"

text \<open>The delimited form of a path: a delimiter on both sides.\<close>

definition wrap :: "byte \<Rightarrow> byte list \<Rightarrow> byte list" where
  "wrap d p = d # p @ [d]"

text \<open>
  The filter on an extracted path: it is not empty, and \<open>my.cnf\<close> occurs in
  \<open>file_name\<close>, the path with the delimiter in front (a zero delimiter ends that
  string at once).
\<close>

definition matches :: "config \<Rightarrow> byte list \<Rightarrow> bool" where
  "matches cfg p \<longleftrightarrow> p \<noteq> [] \<and> PGOPTIONFILES_DELIMITER cfg \<noteq> 0
     \<and> sublist (bytes ''my.cnf'') (PGOPTIONFILES_DELIMITER cfg # p)"

text \<open>
  The iteration is an odd one, the subordinate was resumed and waited for, and it has
  not exited: a syscall-entry stop.
\<close>

definition entry_stop :: "config \<Rightarrow> tracer_state \<Rightarrow> event \<Rightarrow> bool" where
  "entry_stop cfg st ev \<longleftrightarrow>
     trace_number st mod 2 = 1 \<and> 0 \<le> ptrace_syscall ev \<and> 0 \<le> waitpid_result ev
     \<and> \<not> (PGOPTIONFILES_USE_TIMEOUT cfg \<noteq> 0 \<and> waitpid_result ev = 0)
     \<and> \<not> WIFEXITED (wstatus ev)"

text \<open>The strings of a list joined by one delimiter between neighbours.\<close>

fun join :: "byte \<Rightarrow> byte list list \<Rightarrow> byte list" where
  "join d [] = []"
| "join d [e] = e"
| "join d (e # e' # es) = e @ d # join d (e' # es)"

text \<open>
  The entries of a delimiter-separated list, as a reader that splits the output at
  every delimiter sees them; the empty output has no entry.
\<close>

fun split_on :: "byte \<Rightarrow> byte list \<Rightarrow> byte list list" where
  "split_on d [] = [[]]"
| "split_on d (c # cs) =
     (if c = d then [] # split_on d cs
      else (case split_on d cs of [] \<Rightarrow> [[c]] | e # es \<Rightarrow> (c # e) # es))"

definition entries :: "byte \<Rightarrow> byte list \<Rightarrow> byte list list" where
  "entries d s = (if s = [] then [] else split_on d s)"

text \<open>Recording a path unless it was recorded before, and the paths first seen in a sequence.\<close>

definition record_path :: "byte list list \<Rightarrow> byte list \<Rightarrow> byte list list" where
  "record_path es p = (if p \<in> set es then es else es @ [p])"

definition first_seen :: "byte list list \<Rightarrow> byte list list" where
  "first_seen ps = foldl record_path [] ps"

text \<open>
  The matching paths of a sequence of observations, in order: the strings extracted at
  the odd iterations from monitored syscalls that contain \<open>my.cnf\<close>. The second
  argument is the number of the iteration that handles the first observation.
\<close>

fun seen_paths :: "config \<Rightarrow> 32 word \<Rightarrow> event list \<Rightarrow> byte list list" where
  "seen_paths cfg tn [] = []"
| "seen_paths cfg tn (ev # evs) =
     (if tn mod 2 = 1 \<and> monitored (orig_rax (getregs ev)) \<and> matches cfg (entry_path cfg ev)
      then [entry_path cfg ev] else [])
     @ seen_paths cfg (tn + 1) evs"

section \<open>Example observations\<close>

text \<open>A configuration with a maximum path length of 4.\<close>

definition capped_config :: config where
  "capped_config =
     \<lparr>PATH_MAX = 4, PGOPTIONFILES_DELIMITER = 10, PGOPTIONFILES_READ = 0,
      PGOPTIONFILES_USE_TIMEOUT = 0, PGOPTIONFILES_MAX_FILE_NAMES_LIST_SIZE = 64\<rparr>"

text \<open>A subordinate memory that holds the bytes of \<open>abcdefgh\<close> in every word.\<close>

definition long_string_memory :: "addr \<Rightarrow> 64 word option" where
  "long_string_memory a = Some 0x6867666564636261"

text \<open>
  A configuration: Linux's \<open>PATH_MAX\<close>, the default delimiter (newline), reading
  suppressed, the blocking wait, and room for 63 bytes of file names.
\<close>

definition example_config :: config where
  "example_config =
     \<lparr>PATH_MAX = 4096, PGOPTIONFILES_DELIMITER = 10, PGOPTIONFILES_READ = 0,
      PGOPTIONFILES_USE_TIMEOUT = 0, PGOPTIONFILES_MAX_FILE_NAMES_LIST_SIZE = 64\<rparr>"

text \<open>
  A subordinate memory holding, from address \<open>0x1000\<close>, the bytes of \<open>/etc/my.cnf\<close>,
  a zero byte, the bytes of \<open>XYZ\<close> and a zero byte.
\<close>

definition etc_my_cnf_memory :: "addr \<Rightarrow> 64 word option" where
  "etc_my_cnf_memory a =
     (if a = 0x1000 then Some 0x2e796d2f6374652f
      else if a = 0x1008 then Some 0x005a595800666e63
      else None)"

text \<open>A syscall-entry stop (\<open>SIGTRAP\<close>) at \<open>openat(AT_FDCWD, 0x1000, ...)\<close>.\<close>

definition openat_etc_my_cnf :: event where
  "openat_etc_my_cnf =
     \<lparr>ptrace_syscall = 0, waitpid_result = 4242, wstatus = 0x57f,
      getregs = \<lparr>orig_rax = 257, rdi = 0xffffffffffffff9c, rsi = 0x1000\<rparr>,
      peekdata = etc_my_cnf_memory\<rparr>"

text \<open>The tracer's variables after the initial stop, with the strings \<open>main\<close> passes.\<close>

definition after_initial_stop :: tracer_state where
  "after_initial_stop =
     \<lparr>trace_number = 1, retcode = 0, file_names_list = [],
      error_list = bytes ''(pgoptionfiles)'', calls = [WAITPID]\<rparr>"

text \<open>The initial stop of a subordinate that raised \<open>SIGTRAP\<close> instead of \<open>SIGSTOP\<close>.\<close>

definition initial_sigtrap :: event where
  "initial_sigtrap =
     \<lparr>ptrace_syscall = 0, waitpid_result = 4242, wstatus = 0x57f,
      getregs = \<lparr>orig_rax = 0, rdi = 0, rsi = 0\<rparr>, peekdata = (\<lambda>a. None)\<rparr>"

text \<open>The variables after \<open>/etc/my.cnf\<close> was collected and its syscall left.\<close>

definition after_first_syscall :: tracer_state where
  "after_first_syscall =
     \<lparr>trace_number = 3, retcode = 0,
      file_names_list = 10 # bytes ''/etc/my.cnf'' @ [10],
      error_list = bytes ''(pgoptionfiles)'',
      calls = [WAITPID, PTRACE_SYSCALL, WAITPID, PTRACE_GETREGS, PTRACE_PEEKDATA 0x1000,
               PTRACE_PEEKDATA 0x1008,
               PTRACE_SETREGS \<lparr>orig_rax = 257, rdi = 0xffffffffffffff9c, rsi = 0x100c\<rparr>,
               PTRACE_SYSCALL, WAITPID]\<rparr>"

text \<open>The initial stop of a subordinate that raised \<open>SIGSTOP\<close>.\<close>

definition initial_sigstop :: event where
  "initial_sigstop =
     \<lparr>ptrace_syscall = 0, waitpid_result = 4242, wstatus = 0x137f,
      getregs = \<lparr>orig_rax = 0, rdi = 0, rsi = 0\<rparr>, peekdata = (\<lambda>a. None)\<rparr>"

text \<open>A syscall-exit stop.\<close>

definition syscall_exit_stop :: event where
  "syscall_exit_stop =
     \<lparr>ptrace_syscall = 0, waitpid_result = 4242, wstatus = 0x57f,
      getregs = \<lparr>orig_rax = 0, rdi = 0, rsi = 0\<rparr>, peekdata = (\<lambda>a. None)\<rparr>"

text \<open>
  A syscall-entry stop at \<open>openat(AT_FDCWD, 0x3000, ...)\<close>, the subordinate's memory
  holding \<open>Error: raise sigstop failed.\<close> at \<open>0x3000\<close>: the fake \<open>fopen\<close> of
  \<open>pgoptionfiles_tracee_error\<close>.
\<close>

definition openat_error :: event where
  "openat_error =
     \<lparr>ptrace_syscall = 0, waitpid_result = 4242, wstatus = 0x57f,
      getregs = \<lparr>orig_rax = 257, rdi = 0xffffffffffffff9c, rsi = 0x3000\<rparr>,
      peekdata = (\<lambda>a. if a = 0x3000 then Some 0x72203a726f727245
                       else if a = 0x3008 then Some 0x6769732065736961
                       else if a = 0x3010 then Some 0x69616620706f7473
                       else if a = 0x3018 then Some 0x2e64656c
                       else None)\<rparr>"

text \<open>
  A syscall-entry stop at \<open>access(0x2000, ...)\<close>, the subordinate's memory holding
  \<open>/home/u/.my.cnf\<close> at \<open>0x2000\<close>.
\<close>

definition access_home_my_cnf :: event where
  "access_home_my_cnf =
     \<lparr>ptrace_syscall = 0, waitpid_result = 4242, wstatus = 0x57f,
      getregs = \<lparr>orig_rax = 21, rdi = 0x2000, rsi = 0\<rparr>,
      peekdata = (\<lambda>a. if a = 0x2000 then Some 0x2f752f656d6f682f
                       else if a = 0x2008 then Some 0x666e632e796d2e
                       else None)\<rparr>"

text \<open>The example configuration with room for 19 bytes of file names.\<close>

definition small_list_config :: config where
  "small_list_config = example_config\<lparr>PGOPTIONFILES_MAX_FILE_NAMES_LIST_SIZE := 20\<rparr>"

text \<open>The wait that reports the exit of the subordinate.\<close>

definition subordinate_exited :: event where
  "subordinate_exited =
     \<lparr>ptrace_syscall = 0, waitpid_result = 4242, wstatus = 0,
      getregs = \<lparr>orig_rax = 0, rdi = 0, rsi = 0\<rparr>, peekdata = (\<lambda>a. None)\<rparr>"

text \<open>
  A session: the subordinate opens \<open>/etc/my.cnf\<close>, tests \<open>/home/u/.my.cnf\<close>, opens
  \<open>/etc/my.cnf\<close> again and exits.
\<close>

definition example_run :: "event list" where
  "example_run =
     [initial_sigstop, openat_etc_my_cnf, syscall_exit_stop, access_home_my_cnf,
      syscall_exit_stop, openat_etc_my_cnf, syscall_exit_stop, subordinate_exited]"

definition example_run_result :: tracer_state where
  "example_run_result =
     \<lparr>trace_number = 7, retcode = 0,
      file_names_list = bytes ''/etc/my.cnf'' @ 10 # bytes ''/home/u/.my.cnf'',
      error_list = bytes ''(pgoptionfiles)'',
      calls = [WAITPID,
               PTRACE_SYSCALL, WAITPID, PTRACE_GETREGS, PTRACE_PEEKDATA 0x1000,
               PTRACE_PEEKDATA 0x1008,
               PTRACE_SETREGS \<lparr>orig_rax = 257, rdi = 0xffffffffffffff9c, rsi = 0x100c\<rparr>,
               PTRACE_SYSCALL, WAITPID,
               PTRACE_SYSCALL, WAITPID, PTRACE_GETREGS, PTRACE_PEEKDATA 0x2000,
               PTRACE_PEEKDATA 0x2008,
               PTRACE_SETREGS \<lparr>orig_rax = 21, rdi = 0x2010, rsi = 0\<rparr>,
               PTRACE_SYSCALL, WAITPID,
               PTRACE_SYSCALL, WAITPID, PTRACE_GETREGS, PTRACE_PEEKDATA 0x1000,
               PTRACE_PEEKDATA 0x1008,
               PTRACE_SETREGS \<lparr>orig_rax = 257, rdi = 0xffffffffffffff9c, rsi = 0x100c\<rparr>,
               PTRACE_SYSCALL, WAITPID,
               PTRACE_SYSCALL, WAITPID]\<rparr>"

text \<open>
  Syscall-entry stops at \<open>openat\<close> of the relative path \<open>my.cnf\<close> (at \<open>0x4000\<close>) and
  of a path with a newline in it, \<open>a\<newline>my.cnf\<close> (at \<open>0x5000\<close>).
\<close>

definition openat_my_cnf :: event where
  "openat_my_cnf =
     \<lparr>ptrace_syscall = 0, waitpid_result = 4242, wstatus = 0x57f,
      getregs = \<lparr>orig_rax = 257, rdi = 0xffffffffffffff9c, rsi = 0x4000\<rparr>,
      peekdata = (\<lambda>a. if a = 0x4000 then Some 0x666e632e796d else None)\<rparr>"

definition openat_newline_my_cnf :: event where
  "openat_newline_my_cnf =
     \<lparr>ptrace_syscall = 0, waitpid_result = 4242, wstatus = 0x57f,
      getregs = \<lparr>orig_rax = 257, rdi = 0xffffffffffffff9c, rsi = 0x5000\<rparr>,
      peekdata = (\<lambda>a. if a = 0x5000 then Some 0x666e632e796d0a61
                       else if a = 0x5008 then Some 0 else None)\<rparr>"

definition newline_run :: "event list" where
  "newline_run =
     [initial_sigstop, openat_my_cnf, syscall_exit_stop, openat_newline_my_cnf,
      syscall_exit_stop, subordinate_exited]"

definition newline_run_result :: tracer_state where
  "newline_run_result =
     \<lparr>trace_number = 5, retcode = 0,
      file_names_list = bytes ''my.cnf'' @ 10 # bytes ''a'' @ 10 # bytes ''my.cnf'',
      error_list = bytes ''(pgoptionfiles)'',
      calls = [WAITPID,
               PTRACE_SYSCALL, WAITPID, PTRACE_GETREGS, PTRACE_PEEKDATA 0x4000,
               PTRACE_SETREGS \<lparr>orig_rax = 257, rdi = 0xffffffffffffff9c, rsi = 0x4007\<rparr>,
               PTRACE_SYSCALL, WAITPID,
               PTRACE_SYSCALL, WAITPID, PTRACE_GETREGS, PTRACE_PEEKDATA 0x5000,
               PTRACE_PEEKDATA 0x5008,
               PTRACE_SETREGS \<lparr>orig_rax = 257, rdi = 0xffffffffffffff9c, rsi = 0x5009\<rparr>,
               PTRACE_SYSCALL, WAITPID,
               PTRACE_SYSCALL, WAITPID]\<rparr>"

declare copy_word.simps [simp del] copy_words.simps [simp del] hex.simps [simp del]

section \<open>Facts about C strings\<close>

lemma c_str_terminated: "0 \<notin> set p \<Longrightarrow> c_str (p @ 0 # q) = p"
  by (simp add: c_str_def takeWhile_append)

lemma strstr_sublist: "strstr hay needle \<noteq> None \<longleftrightarrow> sublist needle hay"
  by (induction hay) (auto simp: sublist_Cons_right)

section \<open>Facts about the string reader\<close>

lemma word_byte_eval: "word_byte w k = of_nat (unat (drop_bit (8 * k) w) mod 256)"
proof -
  have "unat (word_byte w k) = unat (drop_bit (8 * k) w) mod 256"
    by (simp add: word_byte_def unsigned_ucast_eq take_bit_eq_mod)
  then have "unat (word_byte w k)
               = unat (of_nat (unat (drop_bit (8 * k) w) mod 256) :: byte)"
    by (simp add: unat_of_nat)
  then show ?thesis by (simp only: word_unat_eq_iff)
qed

lemma copy_word_inv:
  "copy_word pm w k c d = (c', d') \<Longrightarrow>
     \<exists>bs. d' = d @ bs \<and> 0 \<notin> set bs \<and> (bs \<noteq> [] \<longrightarrow> int (length d') \<le> pm - 1)"
proof (induction pm w k c d rule: copy_word.induct)
  case (1 pm w k c0 d)
  let ?c = "if int (length d) \<ge> pm - 1 then 0 else word_byte w k"
  show ?case
  proof (cases "k < 8 \<and> ?c \<noteq> 0")
    case False
    with "1.prems" have "d' = d"
      by (subst (asm) copy_word.simps) (auto simp: Let_def split: if_splits)
    then show ?thesis by simp
  next
    case True
    hence room: "int (length d) < pm - 1" by (auto split: if_splits)
    from True "1.prems" have rec: "copy_word pm w (k + 1) ?c (d @ [?c]) = (c', d')"
      by (subst (asm) copy_word.simps) (auto simp: Let_def split: if_splits)
    from True have k: "k < 8" and nz: "?c \<noteq> 0" by simp_all
    from "1.IH"[OF k refl refl nz rec] obtain bs where
      bs: "d' = (d @ [?c]) @ bs" "0 \<notin> set bs" "bs \<noteq> [] \<longrightarrow> int (length d') \<le> pm - 1"
      by blast
    have "d' = d @ (?c # bs)" using bs(1) by simp
    moreover have "0 \<notin> set (?c # bs)" using nz bs(2) by auto
    moreover have "int (length d') \<le> pm - 1"
      using bs(1,3) room by (cases "bs = []") auto
    ultimately show ?thesis by blast
  qed
qed

lemma copy_words_inv:
  "copy_words pm peek src n d log = (d', log') \<Longrightarrow>
     \<exists>bs. d' = d @ bs \<and> 0 \<notin> set bs \<and> (bs \<noteq> [] \<longrightarrow> int (length d') \<le> pm - 1)"
proof (induction pm peek src n d log rule: copy_words.induct)
  case (1 pm peek src n d log)
  let ?a = "src + 8 * of_nat n"
  show ?case
  proof (cases "peek ?a")
    case None
    with "1.prems" have "d' = d"
      by (subst (asm) copy_words.simps) (simp add: Let_def)
    then show ?thesis by simp
  next
    case (Some word)
    obtain c d1 where cw: "copy_word pm word 0 0 d = (c, d1)" by force
    from copy_word_inv[OF cw] obtain bs1 where
      bs1: "d1 = d @ bs1" "0 \<notin> set bs1" "bs1 \<noteq> [] \<longrightarrow> int (length d1) \<le> pm - 1" by blast
    show ?thesis
    proof (cases "c = 0")
      case True
      with "1.prems" Some cw have "d' = d1"
        by (subst (asm) copy_words.simps) (simp add: Let_def)
      with bs1 show ?thesis by blast
    next
      case False
      with "1.prems" Some cw have rec: "copy_words pm peek src (n + 1) d1 (log @ [?a]) = (d', log')"
        by (subst (asm) copy_words.simps) (simp add: Let_def)
      from "1.IH"[OF refl Some cw[symmetric] False rec] obtain bs2 where
        bs2: "d' = d1 @ bs2" "0 \<notin> set bs2" "bs2 \<noteq> [] \<longrightarrow> int (length d') \<le> pm - 1" by blast
      have "d' = d @ (bs1 @ bs2)" using bs1(1) bs2(1) by simp
      moreover have "0 \<notin> set (bs1 @ bs2)" using bs1(2) bs2(2) by simp
      moreover have "bs1 @ bs2 \<noteq> [] \<longrightarrow> int (length d') \<le> pm - 1"
        using bs1 bs2 by (cases "bs2 = []") auto
      ultimately show ?thesis by blast
    qed
  qed
qed

lemma copy_from_tracee_dest:
  assumes "src \<noteq> 0"
  shows "\<exists>p. dest (pgoptionfiles_copy_from_tracee cfg peek src) = p @ [0] \<and> 0 \<notin> set p
           \<and> return_value (pgoptionfiles_copy_from_tracee cfg peek src) = int (length p)
           \<and> (p \<noteq> [] \<longrightarrow> int (length p) \<le> PATH_MAX cfg - 1)"
proof -
  obtain d log where cw: "copy_words (PATH_MAX cfg) peek src 0 [] [] = (d, log)" by force
  from copy_words_inv[OF cw] have "0 \<notin> set d" "d \<noteq> [] \<longrightarrow> int (length d) \<le> PATH_MAX cfg - 1"
    by auto
  with assms cw show ?thesis
    by (simp add: pgoptionfiles_copy_from_tracee_def)
qed

lemma copy_word_spec:
  "copy_word pm w k c0 d = (c', d') \<Longrightarrow> k < 8 \<Longrightarrow>
     \<exists>bs. d' = d @ bs \<and> k + length bs \<le> 8
          \<and> (\<forall>i < length bs. bs ! i = word_byte w (k + i))
          \<and> (if c' = 0
              then k + length bs < 8
                   \<and> (int (length d') \<ge> pm - 1 \<or> word_byte w (k + length bs) = 0)
              else k + length bs = 8)"
proof (induction pm w k c0 d rule: copy_word.induct)
  case (1 pm w k c0 d)
  let ?c = "if int (length d) \<ge> pm - 1 then 0 else word_byte w k"
  show ?case
  proof (cases "?c = 0")
    case True
    with "1.prems" have "c' = 0" "d' = d"
      by (subst (asm) copy_word.simps; simp add: Let_def split: if_splits)+
    with True "1.prems"(2) show ?thesis
      by (intro exI[of _ "[]"]) (auto split: if_splits)
  next
    case nz: False
    then have room: "\<not> int (length d) \<ge> pm - 1" and wb: "word_byte w k \<noteq> 0" "?c = word_byte w k"
      by (auto split: if_splits)
    from "1.prems" nz have rec: "copy_word pm w (k + 1) ?c (d @ [?c]) = (c', d')"
      by (subst (asm) copy_word.simps) (auto simp: Let_def split: if_splits)
    show ?thesis
    proof (cases "k + 1 < 8")
      case False
      with rec have "c' = ?c" "d' = d @ [?c]"
        by (subst (asm) copy_word.simps; simp)+
      with False "1.prems"(2) nz wb show ?thesis
        by (intro exI[of _ "[word_byte w k]"]) auto
    next
      case True
      from "1.IH"[OF "1.prems"(2) refl refl nz rec True] obtain bs where
        bs: "d' = (d @ [?c]) @ bs" "k + 1 + length bs \<le> 8"
            "\<forall>i < length bs. bs ! i = word_byte w (k + 1 + i)"
            "if c' = 0
             then k + 1 + length bs < 8
                  \<and> (int (length d') \<ge> pm - 1 \<or> word_byte w (k + 1 + length bs) = 0)
             else k + 1 + length bs = 8"
        by blast
      have nth: "\<forall>i < length (word_byte w k # bs). (word_byte w k # bs) ! i = word_byte w (k + i)"
      proof (intro allI impI)
        fix i assume "i < length (word_byte w k # bs)"
        then show "(word_byte w k # bs) ! i = word_byte w (k + i)"
          using bs(3) by (cases i) auto
      qed
      show ?thesis
        using bs(1,2,4) nth wb(2)
        by (intro exI[of _ "word_byte w k # bs"]) (auto split: if_splits)
    qed
  qed
qed


lemma remote_byte_word:
  "j < 8 \<Longrightarrow> remote_byte peek src (8 * n + j)
     = map_option (\<lambda>word. word_byte word j) (peek (src + 8 * of_nat n))"
  by (simp add: remote_byte_def)

lemma copy_words_spec:
  "copy_words pm peek src n d log = (d', log') \<Longrightarrow> length d = 8 * n \<Longrightarrow>
     (\<forall>i < length d. remote_byte peek src i = Some (d ! i)) \<Longrightarrow>
     (\<forall>i < length d'. remote_byte peek src i = Some (d' ! i))
     \<and> (int (length d') \<ge> pm - 1 \<or> remote_byte peek src (length d') = None
          \<or> remote_byte peek src (length d') = Some 0)"
proof (induction pm peek src n d log rule: copy_words.induct)
  case (1 pm peek src n d log)
  let ?a = "src + 8 * of_nat n"
  show ?case
  proof (cases "peek ?a")
    case None
    with "1.prems"(1) have "d' = d"
      by (subst (asm) copy_words.simps) (simp add: Let_def)
    moreover have "remote_byte peek src (length d) = None"
      using remote_byte_word[of 0 peek src n] None "1.prems"(2) by simp
    ultimately show ?thesis using "1.prems"(3) by simp
  next
    case (Some word)
    obtain c d1 where cw: "copy_word pm word 0 0 d = (c, d1)" by force
    from copy_word_spec[OF cw] have
      "\<exists>bs. d1 = d @ bs \<and> length bs \<le> 8 \<and> (\<forall>i < length bs. bs ! i = word_byte word i)
          \<and> (if c = 0 then length bs < 8
                \<and> (int (length d1) \<ge> pm - 1 \<or> word_byte word (length bs) = 0)
               else length bs = 8)"
      by (simp cong: if_cong)
    then obtain bs where
      bs: "d1 = d @ bs" "length bs \<le> 8" "\<forall>i < length bs. bs ! i = word_byte word i"
          "if c = 0 then length bs < 8
                \<and> (int (length d1) \<ge> pm - 1 \<or> word_byte word (length bs) = 0)
           else length bs = 8"
      by blast
    have read: "\<forall>i < length d1. remote_byte peek src i = Some (d1 ! i)"
    proof (intro allI impI)
      fix i assume i: "i < length d1"
      show "remote_byte peek src i = Some (d1 ! i)"
      proof (cases "i < length d")
        case True
        with "1.prems"(3) bs(1) show ?thesis by (simp add: nth_append)
      next
        case False
        define j where "j = i - length d"
        from False i bs(1) have j: "j < length bs" "i = 8 * n + j"
          using "1.prems"(2) by (auto simp: j_def)
        with bs(2) have "remote_byte peek src i = Some (word_byte word j)"
          using remote_byte_word[of j peek src n] Some by simp
        moreover have "d1 ! i = bs ! j"
          using bs(1) j "1.prems"(2) by (simp add: nth_append)
        ultimately show ?thesis using bs(3) j(1) by simp
      qed
    qed
    show ?thesis
    proof (cases "c = 0")
      case True
      with "1.prems"(1) Some cw have d': "d' = d1"
        by (subst (asm) copy_words.simps) (simp add: Let_def)
      from True bs(4) have lt: "length bs < 8"
        and stop: "int (length d1) \<ge> pm - 1 \<or> word_byte word (length bs) = 0"
        by simp_all
      have "length d1 = 8 * n + length bs" using bs(1) "1.prems"(2) by simp
      with lt have "remote_byte peek src (length d1) = Some (word_byte word (length bs))"
        using remote_byte_word[of "length bs" peek src n] Some by simp
      with stop read d' show ?thesis by auto
    next
      case False
      with "1.prems"(1) Some cw have rec: "copy_words pm peek src (n + 1) d1 (log @ [?a]) = (d', log')"
        by (subst (asm) copy_words.simps) (simp add: Let_def)
      from False bs(4) have "length bs = 8" by simp
      with bs(1) "1.prems"(2) have len: "length d1 = 8 * (n + 1)" by simp
      from "1.IH"[OF refl Some cw[symmetric] False rec len read] show ?thesis .
    qed
  qed
qed

lemma copy_from_tracee_reads:
  assumes "src \<noteq> 0"
  shows "\<exists>p. dest (pgoptionfiles_copy_from_tracee cfg peek src) = p @ [0]
           \<and> (\<forall>i < length p. remote_byte peek src i = Some (p ! i))
           \<and> (int (length p) \<ge> PATH_MAX cfg - 1 \<or> remote_byte peek src (length p) = None
                \<or> remote_byte peek src (length p) = Some 0)"
proof -
  obtain d log where cw: "copy_words (PATH_MAX cfg) peek src 0 [] [] = (d, log)" by force
  from copy_words_spec[OF cw] assms cw show ?thesis
    by (simp add: pgoptionfiles_copy_from_tracee_def)
qed

text \<open>
  C8. Given a null remote address, the string reader returns length zero, reads nothing
  from the subordinate and stores nothing in the destination.
\<close>

theorem copy_from_tracee_null_address:
  "pgoptionfiles_copy_from_tracee cfg peek 0 = \<lparr>dest = [], return_value = 0, peeked = []\<rparr>"
  by (simp add: pgoptionfiles_copy_from_tracee_def)

text \<open>
  C9. Given a non-null remote address (and a positive maximum path length), the string
  reader stores a string without a zero byte followed by exactly one zero byte. The
  string has at most \<open>PATH_MAX - 1\<close> bytes and the returned length is its length,
  below \<open>PATH_MAX\<close>. Its bytes are the bytes of the subordinate's memory from the
  address on, and it ends where the cap of \<open>PATH_MAX - 1\<close> bytes is reached, where a
  read fails, or where the memory holds a zero byte.
\<close>

theorem copy_from_tracee_capped:
  assumes "src \<noteq> 0" and "0 < PATH_MAX cfg"
  shows "\<exists>p. dest (pgoptionfiles_copy_from_tracee cfg peek src) = p @ [0]
           \<and> 0 \<notin> set p
           \<and> return_value (pgoptionfiles_copy_from_tracee cfg peek src) = int (length p)
           \<and> int (length p) \<le> PATH_MAX cfg - 1
           \<and> return_value (pgoptionfiles_copy_from_tracee cfg peek src) < PATH_MAX cfg
           \<and> (\<forall>i < length p. remote_byte peek src i = Some (p ! i))
           \<and> (int (length p) = PATH_MAX cfg - 1
                \<or> remote_byte peek src (length p) = None
                \<or> remote_byte peek src (length p) = Some 0)"
proof -
  from copy_from_tracee_dest[OF assms(1), of cfg peek] obtain p where
    p: "dest (pgoptionfiles_copy_from_tracee cfg peek src) = p @ [0]" "0 \<notin> set p"
       "return_value (pgoptionfiles_copy_from_tracee cfg peek src) = int (length p)"
       "p \<noteq> [] \<longrightarrow> int (length p) \<le> PATH_MAX cfg - 1"
    by blast
  from copy_from_tracee_reads[OF assms(1), of cfg peek] p(1)
  have rd: "\<forall>i < length p. remote_byte peek src i = Some (p ! i)"
    and stop: "int (length p) \<ge> PATH_MAX cfg - 1 \<or> remote_byte peek src (length p) = None
                \<or> remote_byte peek src (length p) = Some 0"
    by auto
  have le: "int (length p) \<le> PATH_MAX cfg - 1"
    using p(4) assms(2) by (cases "p = []") auto
  with stop have "int (length p) = PATH_MAX cfg - 1
                \<or> remote_byte peek src (length p) = None
                \<or> remote_byte peek src (length p) = Some 0"
    by linarith
  with p(1,2,3) le rd show ?thesis by auto
qed

text \<open>
  A maximum path length of 4 and a memory that holds \<open>abcdefgh\<close> in every word.
\<close>

theorem copy_from_tracee_capped_witness:
  "(0x1000 :: addr) \<noteq> 0 \<and> 0 < PATH_MAX capped_config
   \<and> dest (pgoptionfiles_copy_from_tracee capped_config long_string_memory 0x1000)
       = [0x61, 0x62, 0x63, 0]
   \<and> return_value (pgoptionfiles_copy_from_tracee capped_config long_string_memory 0x1000) = 3
   \<and> remote_byte long_string_memory 0x1000 3 = Some 0x64"
proof -
  have h: "(0x1000 :: addr) \<noteq> 0" "0 < PATH_MAX capped_config"
    by (simp_all add: capped_config_def)
  from copy_from_tracee_capped[OF h, of long_string_memory] obtain p where
    p: "dest (pgoptionfiles_copy_from_tracee capped_config long_string_memory 0x1000) = p @ [0]"
       "return_value (pgoptionfiles_copy_from_tracee capped_config long_string_memory 0x1000)
          = int (length p)"
       "int (length p) \<le> PATH_MAX capped_config - 1"
       "\<forall>i < length p. remote_byte long_string_memory 0x1000 i = Some (p ! i)"
       "int (length p) = PATH_MAX capped_config - 1
          \<or> remote_byte long_string_memory 0x1000 (length p) = None
          \<or> remote_byte long_string_memory 0x1000 (length p) = Some 0"
    by blast
  have rb: "remote_byte long_string_memory 0x1000 i = Some (word_byte 0x6867666564636261 (i mod 8))"
    for i by (simp add: remote_byte_def long_string_memory_def)
  have b: "word_byte 0x6867666564636261 0 = 0x61" "word_byte 0x6867666564636261 1 = 0x62"
          "word_byte 0x6867666564636261 2 = 0x63" "word_byte 0x6867666564636261 3 = 0x64"
    by (simp_all add: word_byte_eval)
  have nz: "word_byte 0x6867666564636261 k \<noteq> 0" if "k < 8" for k
  proof -
    from that have "k \<in> {0, 1, 2, 3, 4, 5, 6, 7}" by auto
    then show ?thesis by (auto simp: word_byte_eval)
  qed
  have "remote_byte long_string_memory 0x1000 (length p) \<noteq> None"
    "remote_byte long_string_memory 0x1000 (length p) \<noteq> Some 0"
    using nz[of "length p mod 8"] by (simp_all add: rb)
  with p(5) have len: "length p = 3" by (simp add: capped_config_def)
  from p(4) len have "p ! 0 = 0x61" "p ! 1 = 0x62" "p ! 2 = 0x63"
    using b by (simp_all add: rb)
  with len have "p = [0x61, 0x62, 0x63]"
    by (cases p; cases "tl p"; cases "tl (tl p)"; cases "tl (tl (tl p))") auto
  with h p(1,2) len b(4) show ?thesis by (simp add: rb)
qed

section \<open>The handling of a syscall-entry stop\<close>

lemma strstr_None: "strstr hay needle = None \<longleftrightarrow> \<not> sublist needle hay"
  using strstr_sublist[of hay needle] by blast

lemmas syscall_numbers =
  SYSCALL_OPEN_def SYSCALL_STAT_def SYSCALL_LSTAT_def SYSCALL_ACCESS_def SYSCALL_OPENAT_def

lemma entry_path_dest:
  assumes "entry_path cfg ev \<noteq> []"
  shows "dest (pgoptionfiles_copy_from_tracee cfg (peekdata ev) (path_argument (getregs ev)))
           = entry_path cfg ev @ [0]"
    and "return_value (pgoptionfiles_copy_from_tracee cfg (peekdata ev) (path_argument (getregs ev)))
           = int (length (entry_path cfg ev))"
    and "0 \<notin> set (entry_path cfg ev)"
    and "int (length (entry_path cfg ev)) \<le> PATH_MAX cfg - 1"
proof -
  let ?src = "path_argument (getregs ev)"
  let ?r = "pgoptionfiles_copy_from_tracee cfg (peekdata ev) ?src"
  have src: "?src \<noteq> 0"
  proof
    assume "?src = 0"
    then have "dest ?r = []" by (simp add: pgoptionfiles_copy_from_tracee_def)
    with assms show False by (simp add: entry_path_def c_str_def)
  qed
  from copy_from_tracee_dest[OF src, of cfg "peekdata ev"] obtain p where
    p: "dest ?r = p @ [0]" "0 \<notin> set p" "return_value ?r = int (length p)"
       "p \<noteq> [] \<longrightarrow> int (length p) \<le> PATH_MAX cfg - 1"
    by blast
  have eq: "entry_path cfg ev = p"
    using p(1,2) by (simp add: entry_path_def c_str_terminated)
  show "dest ?r = entry_path cfg ev @ [0]" using p(1) eq by simp
  show "return_value ?r = int (length (entry_path cfg ev))" using p(3) eq by simp
  show "0 \<notin> set (entry_path cfg ev)" using p(2) eq by simp
  show "int (length (entry_path cfg ev)) \<le> PATH_MAX cfg - 1" using p(4) eq assms by simp
qed

lemma entry_path_empty:
  assumes "entry_path cfg ev = []"
  shows "return_value (pgoptionfiles_copy_from_tracee cfg (peekdata ev) (path_argument (getregs ev))) = 0"
proof (cases "path_argument (getregs ev) = 0")
  case True
  then show ?thesis by (simp add: pgoptionfiles_copy_from_tracee_def)
next
  case False
  from copy_from_tracee_dest[OF False, of cfg "peekdata ev"] obtain p where
    p: "dest (pgoptionfiles_copy_from_tracee cfg (peekdata ev) (path_argument (getregs ev))) = p @ [0]"
       "0 \<notin> set p"
       "return_value (pgoptionfiles_copy_from_tracee cfg (peekdata ev) (path_argument (getregs ev))) = int (length p)"
    by blast
  have "entry_path cfg ev = p" using p(1,2) by (simp add: entry_path_def c_str_terminated)
  with assms p(3) show ?thesis by simp
qed

lemma syscall_entry_unmonitored:
  assumes "\<not> monitored (orig_rax (getregs ev))"
  shows "syscall_entry cfg ev st = Continue (st\<lparr>calls := calls st @ [PTRACE_GETREGS]\<rparr>)"
  using assms by (simp add: syscall_entry_def monitored_def syscall_numbers Let_def)

lemma copied_path_argument:
  "(if orig_rax r = SYSCALL_OPENAT
    then pgoptionfiles_copy_from_tracee cfg pk (rsi r)
    else pgoptionfiles_copy_from_tracee cfg pk (rdi r))
   = pgoptionfiles_copy_from_tracee cfg pk (path_argument r)"
  by (simp add: path_argument_def)

lemma syscall_entry_paths:
  "syscall_entry cfg ev st =
     (let p = entry_path cfg ev;
          copied = pgoptionfiles_copy_from_tracee cfg (peekdata ev) (path_argument (getregs ev));
          st2 = st\<lparr>calls := calls st @ entry_log cfg ev\<rparr>
      in
      if \<not> monitored (orig_rax (getregs ev))
      then Continue (st\<lparr>calls := calls st @ [PTRACE_GETREGS]\<rparr>)
      else if int (length (dest copied)) + 1 > PATH_MAX cfg then Overflow st2
      else if p = [] then Continue st2
      else if strncmp_eq p (bytes ''Error: '') 7 then error_break st2 p (- 6)
      else if \<not> matches cfg p then Continue st2
      else
        let st3 = (if PGOPTIONFILES_READ cfg = 0
                   then st2\<lparr>calls := calls st2 @ [PTRACE_SETREGS (patch (getregs ev) (length p + 1))]\<rparr>
                   else st2)
        in
        if int (length p) + 2 \<ge> PATH_MAX cfg then Overflow st3
        else if sublist (wrap (PGOPTIONFILES_DELIMITER cfg) p) (file_names_list st) then Continue st3
        else if length (file_names_list st) + length (wrap (PGOPTIONFILES_DELIMITER cfg) p)
                  \<ge> PGOPTIONFILES_MAX_FILE_NAMES_LIST_SIZE cfg
        then Break st3
        else Continue (st3\<lparr>file_names_list :=
                             file_names_list st @ wrap (PGOPTIONFILES_DELIMITER cfg) p\<rparr>))"
proof -
  let ?D = "PGOPTIONFILES_DELIMITER cfg"
  let ?p = "entry_path cfg ev"
  let ?r = "pgoptionfiles_copy_from_tracee cfg (peekdata ev) (path_argument (getregs ev))"
  show ?thesis
  proof (cases "monitored (orig_rax (getregs ev))")
    case False
    then show ?thesis by (simp add: syscall_entry_unmonitored Let_def)
  next
    case mon: True
    then have m: "orig_rax (getregs ev) = SYSCALL_OPENAT \<or> orig_rax (getregs ev) = SYSCALL_ACCESS
         \<or> orig_rax (getregs ev) = SYSCALL_STAT \<or> orig_rax (getregs ev) = SYSCALL_OPEN
         \<or> orig_rax (getregs ev) = SYSCALL_LSTAT"
      by (auto simp: monitored_def syscall_numbers)
    show ?thesis
    proof (cases "?p = []")
      case True
      from entry_path_empty[OF True] have "return_value ?r = 0" .
      with m mon True show ?thesis
        unfolding syscall_entry_def Let_def copied_path_argument
        by (simp add: entry_log_def)
    next
      case ne: False
      note d = entry_path_dest[OF ne]
      have c2: "c_str (?p @ [0]) = ?p"
        using c_str_terminated[of "?p" "[]"] d(3) by simp
      have len: "0 < length ?p" using ne by simp
      show ?thesis
      proof (cases "?D = 0")
        case True
        then have c1: "c_str (?D # ?p @ [0]) = []" by (simp add: c_str_def)
        show ?thesis
          unfolding syscall_entry_def Let_def copied_path_argument
          using m mon d(1,2) c1 c2 len ne True
          by (simp add: strstr_None entry_log_def matches_def bytes_def del: strstr.simps)
      next
        case dnz: False
        have c1: "c_str (?D # ?p @ [0]) = ?D # ?p"
          using c_str_terminated[of "?D # ?p" "[]"] d(3) dnz by simp
        have c3: "c_str (?D # ?p @ [?D, 0]) = ?D # ?p @ [?D]"
          using c_str_terminated[of "?D # ?p @ [?D]" "[]"] d(3) dnz by simp
        show ?thesis
          unfolding syscall_entry_def Let_def copied_path_argument
          using m mon d(1,2) c1 c2 c3 len ne dnz
          by (simp add: strstr_None entry_log_def matches_def wrap_def patch_def
                del: strstr.simps)
      qed
    qed
  qed
qed

section \<open>Properties of a single iteration\<close>

lemma odd_trace_number: "(tn :: 32 word) mod 2 = 1 \<Longrightarrow> tn \<noteq> 0 \<and> 0 < tn"
  by (auto simp: word_greater_zero_iff)

lemma tracer_iteration_entry:
  assumes "entry_stop cfg st ev"
  shows "tracer_iteration cfg ev st
           = syscall_entry cfg ev (st\<lparr>calls := calls st @ [PTRACE_SYSCALL, WAITPID]\<rparr>)"
proof -
  from assms have tn: "trace_number st mod 2 = 1" by (simp add: entry_stop_def)
  from odd_trace_number[OF tn] have "trace_number st \<noteq> 0" "0 < trace_number st" by simp_all
  with assms show ?thesis
    by (auto simp: tracer_iteration_def entry_stop_def Let_def)
qed

lemma peek_addrs_append [simp]: "peek_addrs (xs @ ys) = peek_addrs xs @ peek_addrs ys"
  by (simp add: peek_addrs_def)

lemma peek_addrs_simps [simp]:
  "peek_addrs [] = []"
  "peek_addrs (PTRACE_SYSCALL # cs) = peek_addrs cs"
  "peek_addrs (WAITPID # cs) = peek_addrs cs"
  "peek_addrs (PTRACE_GETREGS # cs) = peek_addrs cs"
  "peek_addrs (PTRACE_PEEKDATA a # cs) = a # peek_addrs cs"
  "peek_addrs (PTRACE_SETREGS r # cs) = peek_addrs cs"
  "peek_addrs (KILL n # cs) = peek_addrs cs"
  by (simp_all add: peek_addrs_def)

lemma peek_addrs_map [simp]: "peek_addrs (map PTRACE_PEEKDATA as) = as"
  by (induction as) simp_all

lemma ctl_state_simps [simp]:
  "ctl_state (Continue s) = s" "ctl_state (Break s) = s" "ctl_state (Overflow s) = s"
  by (simp_all add: ctl_state_def)

lemma ctl_state_error_break:
  "calls (ctl_state (error_break st msg rc)) = calls st"
  "file_names_list (ctl_state (error_break st msg rc)) = file_names_list st"
  "trace_number (ctl_state (error_break st msg rc)) = trace_number st"
  by (simp_all add: error_break_def)

lemma syscall_entry_calls:
  "calls (ctl_state (syscall_entry cfg ev st)) =
     calls st @
     (if \<not> monitored (orig_rax (getregs ev)) then [PTRACE_GETREGS]
      else entry_log cfg ev @
        (if int (length (dest (pgoptionfiles_copy_from_tracee cfg (peekdata ev)
                                  (path_argument (getregs ev))))) + 1 \<le> PATH_MAX cfg
            \<and> \<not> strncmp_eq (entry_path cfg ev) (bytes ''Error: '') 7
            \<and> matches cfg (entry_path cfg ev) \<and> PGOPTIONFILES_READ cfg = 0
         then [PTRACE_SETREGS (patch (getregs ev) (length (entry_path cfg ev) + 1))]
         else []))"
  by (simp add: syscall_entry_paths Let_def ctl_state_error_break matches_def)

text \<open>
  C6. At a syscall-entry stop the tracer reads the subordinate's memory exactly as the
  string reader does from \<open>rsi\<close> when the syscall number is 257 (openat) and from
  \<open>rdi\<close> when it is 2, 4, 6 or 21 (open, stat, lstat, access); for every other number
  it reads nothing and only records the register fetch.
\<close>

theorem entry_reads_path_argument:
  "entry_stop cfg st ev \<Longrightarrow>
     peek_addrs (calls (ctl_state (tracer_iteration cfg ev st)))
       = peek_addrs (calls st) @
         (if orig_rax (getregs ev) = 257
          then peeked (pgoptionfiles_copy_from_tracee cfg (peekdata ev) (rsi (getregs ev)))
          else if orig_rax (getregs ev) \<in> {2, 4, 6, 21}
          then peeked (pgoptionfiles_copy_from_tracee cfg (peekdata ev) (rdi (getregs ev)))
          else [])
     \<and> (orig_rax (getregs ev) \<notin> {2, 4, 6, 21, 257} \<longrightarrow>
          tracer_iteration cfg ev st
            = Continue (st\<lparr>calls := calls st @ [PTRACE_SYSCALL, WAITPID, PTRACE_GETREGS]\<rparr>))"
proof -
  assume es: "entry_stop cfg st ev"
  have "orig_rax (getregs ev) \<notin> {2, 4, 6, 21, 257} \<Longrightarrow>
          tracer_iteration cfg ev st
            = Continue (st\<lparr>calls := calls st @ [PTRACE_SYSCALL, WAITPID, PTRACE_GETREGS]\<rparr>)"
    by (simp add: tracer_iteration_entry[OF es] syscall_entry_unmonitored monitored_def)
  moreover have "peek_addrs (calls (ctl_state (tracer_iteration cfg ev st)))
       = peek_addrs (calls st) @
         (if orig_rax (getregs ev) = 257
          then peeked (pgoptionfiles_copy_from_tracee cfg (peekdata ev) (rsi (getregs ev)))
          else if orig_rax (getregs ev) \<in> {2, 4, 6, 21}
          then peeked (pgoptionfiles_copy_from_tracee cfg (peekdata ev) (rdi (getregs ev)))
          else [])"
    by (auto simp: tracer_iteration_entry[OF es] syscall_entry_calls monitored_def
          entry_log_def path_argument_def syscall_numbers)
  ultimately show ?thesis by blast
qed

lemmas example_defs = example_config_def etc_my_cnf_memory_def openat_etc_my_cnf_def
  after_initial_stop_def

lemmas eval_defs = pgoptionfiles_copy_from_tracee_def copy_words.simps copy_word.simps
  word_byte_eval c_str_def Let_def bytes_def

lemma etc_my_cnf_path: "entry_path example_config openat_etc_my_cnf = bytes ''/etc/my.cnf''"
  by (simp add: entry_path_def path_argument_def syscall_numbers example_defs eval_defs)

lemma etc_my_cnf_stop: "entry_stop example_config after_initial_stop openat_etc_my_cnf"
  by (simp add: entry_stop_def example_defs WIFEXITED_def)

theorem entry_reads_path_argument_witness:
  "entry_stop example_config after_initial_stop openat_etc_my_cnf
   \<and> peek_addrs (calls (ctl_state
         (tracer_iteration example_config openat_etc_my_cnf after_initial_stop)))
       = [0x1000, 0x1008]"
  using entry_reads_path_argument[OF etc_my_cnf_stop] etc_my_cnf_stop
  by (simp add: example_defs eval_defs)

text \<open>
  C7. When the first wait reports a subordinate that has not exited and is not stopped
  by \<open>SIGSTOP\<close>, the tracer kills it with \<open>SIGKILL\<close>, appends
  \<open>Error: waitpid status: <status in hex>.\<close> to the error text (which must fit the
  caller's array) and returns \<open>-3\<close>, whatever would be observed afterwards.
\<close>

theorem first_stop_not_sigstop:
  assumes "0 < waitpid_result ev"
    and "\<not> WIFEXITED (wstatus ev)"
    and "\<not> (WIFSTOPPED (wstatus ev) \<and> WSTOPSIG (wstatus ev) = SIGSTOP)"
    and "length error_list0
           + length (bytes ''Error: waitpid status: '' @ hex (unat (wstatus ev)) @ bytes ''.'')
           < error_list_size"
  shows "pgoptionfiles_tracer cfg (ev # evs) file_names_list0 error_list0 =
           Returned \<lparr>trace_number = 0, retcode = - 3,
             file_names_list = eliminate (PGOPTIONFILES_DELIMITER cfg) file_names_list0 [],
             error_list = error_list0 @ bytes ''Error: waitpid status: ''
                            @ hex (unat (wstatus ev)) @ bytes ''.'',
             calls = [WAITPID, KILL SIGKILL]\<rparr>"
  using assms
  by (auto simp: pgoptionfiles_tracer_def initial_state_def tracer_iteration_def
        error_break_def Let_def)

theorem first_stop_not_sigstop_witness:
  "0 < waitpid_result initial_sigtrap
   \<and> \<not> WIFEXITED (wstatus initial_sigtrap)
   \<and> \<not> (WIFSTOPPED (wstatus initial_sigtrap) \<and> WSTOPSIG (wstatus initial_sigtrap) = SIGSTOP)
   \<and> main_tracer example_config [initial_sigtrap] =
        Returned \<lparr>trace_number = 0, retcode = - 3, file_names_list = [],
          error_list = bytes ''(pgoptionfiles)Error: waitpid status: 57f.'',
          calls = [WAITPID, KILL 9]\<rparr>"
proof -
  have h1: "0 < waitpid_result initial_sigtrap" by (simp add: initial_sigtrap_def)
  have h2: "\<not> WIFEXITED (wstatus initial_sigtrap)"
    by (simp add: initial_sigtrap_def WIFEXITED_def)
  have h3: "\<not> (WIFSTOPPED (wstatus initial_sigtrap) \<and> WSTOPSIG (wstatus initial_sigtrap) = SIGSTOP)"
    by (simp add: initial_sigtrap_def WIFSTOPPED_def WSTOPSIG_def SIGSTOP_def)
  have hx: "hex (unat (wstatus initial_sigtrap)) = bytes ''57f''"
    by (simp add: initial_sigtrap_def hex.simps hex_digit_def bytes_def)
  have h4: "length (bytes ''(pgoptionfiles)'')
           + length (bytes ''Error: waitpid status: '' @ hex (unat (wstatus initial_sigtrap)) @ bytes ''.'')
           < error_list_size"
    by (simp add: hx bytes_def error_list_size_def)
  from first_stop_not_sigstop[OF h1 h2 h3 h4, of example_config "[]" "[]"] h1 h2 h3
  show ?thesis
    by (simp add: main_tracer_def hx bytes_def SIGKILL_def)
qed

lemma matching_entry_result:
  assumes es: "entry_stop cfg st ev"
    and mon: "monitored (orig_rax (getregs ev))"
    and m: "matches cfg (entry_path cfg ev)"
    and nerr: "\<not> strncmp_eq (entry_path cfg ev) (bytes ''Error: '') 7"
    and fits: "int (length (entry_path cfg ev)) + 2 < PATH_MAX cfg"
  shows "tracer_iteration cfg ev st =
     (let st3 = st\<lparr>calls := calls st @ [PTRACE_SYSCALL, WAITPID] @ entry_log cfg ev
                   @ (if PGOPTIONFILES_READ cfg = 0
                      then [PTRACE_SETREGS (patch (getregs ev) (length (entry_path cfg ev) + 1))]
                      else [])\<rparr>;
          e = wrap (PGOPTIONFILES_DELIMITER cfg) (entry_path cfg ev)
      in if sublist e (file_names_list st) then Continue st3
         else if length (file_names_list st) + length e \<ge> PGOPTIONFILES_MAX_FILE_NAMES_LIST_SIZE cfg
         then Break st3
         else Continue (st3\<lparr>file_names_list := file_names_list st @ e\<rparr>))"
proof -
  have ne: "entry_path cfg ev \<noteq> []" using m by (simp add: matches_def)
  from entry_path_dest(1)[OF ne] fits
  have "\<not> int (length (dest (pgoptionfiles_copy_from_tracee cfg (peekdata ev)
                                 (path_argument (getregs ev))))) + 1 > PATH_MAX cfg"
    by simp
  with mon m nerr fits ne show ?thesis
    by (simp add: tracer_iteration_entry[OF es] syscall_entry_paths Let_def)
qed

lemma matching_path_terminator:
  assumes "matches cfg (entry_path cfg ev)"
    and "int (length (entry_path cfg ev)) + 2 < PATH_MAX cfg"
  shows "remote_byte (peekdata ev) (path_argument (getregs ev)) (length (entry_path cfg ev)) = Some 0
         \<or> remote_byte (peekdata ev) (path_argument (getregs ev)) (length (entry_path cfg ev)) = None"
proof -
  let ?p = "entry_path cfg ev"
  let ?src = "path_argument (getregs ev)"
  have ne: "?p \<noteq> []" using assms(1) by (simp add: matches_def)
  have src: "?src \<noteq> 0"
  proof
    assume "?src = 0"
    then have "dest (pgoptionfiles_copy_from_tracee cfg (peekdata ev) ?src) = []"
      by (simp add: pgoptionfiles_copy_from_tracee_def)
    with entry_path_dest(1)[OF ne] show False by simp
  qed
  from copy_from_tracee_reads[OF src, of cfg "peekdata ev"] entry_path_dest(1)[OF ne]
  have "int (length ?p) \<ge> PATH_MAX cfg - 1
          \<or> remote_byte (peekdata ev) ?src (length ?p) = None
          \<or> remote_byte (peekdata ev) ?src (length ?p) = Some 0"
    by auto
  with assms(2) show ?thesis by auto
qed

text \<open>
  C10. With \<open>PGOPTIONFILES_READ = 0\<close>, at every syscall-entry stop of a monitored
  syscall whose path contains \<open>my.cnf\<close> (and is not an error message), the tracer
  writes the patched registers back, whatever the list of file names holds: when the
  delimited path is already in the list the iteration continues with the list
  unchanged, when it would not fit the loop is left with the list unchanged, and in
  both cases the write of the registers is the last call made. The access itself is
  not suppressed by that write: the byte that ends the path in the subordinate's
  memory lies at the offset of the path's length, and the register written holds the
  original address plus that length plus one, so the syscall reads its path from the
  byte after the terminating zero byte.
\<close>

theorem patch_before_duplicate_and_capacity_tests:
  assumes "entry_stop cfg st ev"
    and "monitored (orig_rax (getregs ev))"
    and "PGOPTIONFILES_READ cfg = 0"
    and "matches cfg (entry_path cfg ev)"
    and "\<not> strncmp_eq (entry_path cfg ev) (bytes ''Error: '') 7"
    and "int (length (entry_path cfg ev)) + 2 < PATH_MAX cfg"
  shows "calls (ctl_state (tracer_iteration cfg ev st))
           = calls st @ [PTRACE_SYSCALL, WAITPID] @ entry_log cfg ev
               @ [PTRACE_SETREGS (patch (getregs ev) (length (entry_path cfg ev) + 1))]
       \<and> (sublist (wrap (PGOPTIONFILES_DELIMITER cfg) (entry_path cfg ev)) (file_names_list st) \<longrightarrow>
            (\<exists>st'. tracer_iteration cfg ev st = Continue st'
                   \<and> file_names_list st' = file_names_list st))
       \<and> (\<not> sublist (wrap (PGOPTIONFILES_DELIMITER cfg) (entry_path cfg ev)) (file_names_list st)
            \<and> length (file_names_list st)
                 + length (wrap (PGOPTIONFILES_DELIMITER cfg) (entry_path cfg ev))
               \<ge> PGOPTIONFILES_MAX_FILE_NAMES_LIST_SIZE cfg \<longrightarrow>
            (\<exists>st'. tracer_iteration cfg ev st = Break st'
                   \<and> file_names_list st' = file_names_list st))
       \<and> (remote_byte (peekdata ev) (path_argument (getregs ev)) (length (entry_path cfg ev))
             = Some 0
            \<or> remote_byte (peekdata ev) (path_argument (getregs ev)) (length (entry_path cfg ev))
                = None)
       \<and> path_argument (patch (getregs ev) (length (entry_path cfg ev) + 1))
           = path_argument (getregs ev) + of_nat (length (entry_path cfg ev)) + 1"
proof -
  have pa: "path_argument (patch (getregs ev) (length (entry_path cfg ev) + 1))
              = path_argument (getregs ev) + of_nat (length (entry_path cfg ev)) + 1"
    by (simp add: path_argument_def patch_def)
  from assms(3) matching_entry_result[OF assms(1,2,4,5,6)]
    matching_path_terminator[OF assms(4,6)] pa
  show ?thesis by (simp add: Let_def)
qed

lemma etc_my_cnf_stop_again: "entry_stop example_config after_first_syscall openat_etc_my_cnf"
  by (simp add: entry_stop_def example_defs after_first_syscall_def WIFEXITED_def)

lemma etc_my_cnf_monitored: "monitored (orig_rax (getregs openat_etc_my_cnf))"
  by (simp add: monitored_def example_defs)

lemma etc_my_cnf_matches: "matches example_config (entry_path example_config openat_etc_my_cnf)"
  unfolding etc_my_cnf_path by (simp add: matches_def example_config_def bytes_def sublist_Cons_right)

lemma etc_my_cnf_no_error: "\<not> strncmp_eq (entry_path example_config openat_etc_my_cnf) (bytes ''Error: '') 7"
  by (simp add: etc_my_cnf_path strncmp_eq_def bytes_def)

lemma etc_my_cnf_fits: "int (length (entry_path example_config openat_etc_my_cnf)) + 2 < PATH_MAX example_config"
  unfolding etc_my_cnf_path by (simp add: bytes_def example_config_def)

theorem patch_before_duplicate_and_capacity_tests_witness:
  "entry_stop example_config after_first_syscall openat_etc_my_cnf
   \<and> monitored (orig_rax (getregs openat_etc_my_cnf))
   \<and> PGOPTIONFILES_READ example_config = 0
   \<and> matches example_config (entry_path example_config openat_etc_my_cnf)
   \<and> \<not> strncmp_eq (entry_path example_config openat_etc_my_cnf) (bytes ''Error: '') 7
   \<and> int (length (entry_path example_config openat_etc_my_cnf)) + 2 < PATH_MAX example_config
   \<and> sublist (wrap (PGOPTIONFILES_DELIMITER example_config)
                 (entry_path example_config openat_etc_my_cnf))
        (file_names_list after_first_syscall)
   \<and> calls (ctl_state (tracer_iteration example_config openat_etc_my_cnf after_first_syscall))
        = calls after_first_syscall
          @ [PTRACE_SYSCALL, WAITPID, PTRACE_GETREGS, PTRACE_PEEKDATA 0x1000,
             PTRACE_PEEKDATA 0x1008,
             PTRACE_SETREGS \<lparr>orig_rax = 257, rdi = 0xffffffffffffff9c, rsi = 0x100c\<rparr>]
   \<and> file_names_list
         (ctl_state (tracer_iteration example_config openat_etc_my_cnf after_first_syscall))
        = 10 # bytes ''/etc/my.cnf'' @ [10]
   \<and> path_argument (getregs openat_etc_my_cnf) = 0x1000
   \<and> length (entry_path example_config openat_etc_my_cnf) = 11
   \<and> remote_byte (peekdata openat_etc_my_cnf) 0x1000 11 = Some 0
   \<and> path_argument (patch (getregs openat_etc_my_cnf)
          (length (entry_path example_config openat_etc_my_cnf) + 1)) = 0x100c
   \<and> remote_byte (peekdata openat_etc_my_cnf) 0x1000 12 = Some 0x58"
proof -
  have r: "PGOPTIONFILES_READ example_config = 0" by (simp add: example_config_def)
  have dup: "sublist (wrap (PGOPTIONFILES_DELIMITER example_config)
                 (entry_path example_config openat_etc_my_cnf))
        (file_names_list after_first_syscall)"
    unfolding etc_my_cnf_path by (simp add: wrap_def example_config_def after_first_syscall_def)
  have log: "entry_log example_config openat_etc_my_cnf
               = [PTRACE_GETREGS, PTRACE_PEEKDATA 0x1000, PTRACE_PEEKDATA 0x1008]"
    by (simp add: entry_log_def path_argument_def syscall_numbers example_defs eval_defs)
  have pt: "patch (getregs openat_etc_my_cnf)
              (length (entry_path example_config openat_etc_my_cnf) + 1)
            = \<lparr>orig_rax = 257, rdi = 0xffffffffffffff9c, rsi = 0x100c\<rparr>"
    unfolding etc_my_cnf_path by (simp add: patch_def syscall_numbers openat_etc_my_cnf_def bytes_def)
  have pa: "path_argument (getregs openat_etc_my_cnf) = 0x1000"
    by (simp add: path_argument_def syscall_numbers openat_etc_my_cnf_def)
  have len: "length (entry_path example_config openat_etc_my_cnf) = 11"
    unfolding etc_my_cnf_path by (simp add: bytes_def)
  have b12: "remote_byte (peekdata openat_etc_my_cnf) 0x1000 12 = Some 0x58"
    by (simp add: remote_byte_def openat_etc_my_cnf_def etc_my_cnf_memory_def word_byte_eval)
  have nn: "remote_byte (peekdata openat_etc_my_cnf) 0x1000 11 \<noteq> None"
    by (simp add: remote_byte_def openat_etc_my_cnf_def etc_my_cnf_memory_def)
  note t = patch_before_duplicate_and_capacity_tests
             [OF etc_my_cnf_stop_again etc_my_cnf_monitored r etc_my_cnf_matches
                 etc_my_cnf_no_error etc_my_cnf_fits]
  from t dup obtain st' where
    st': "tracer_iteration example_config openat_etc_my_cnf after_first_syscall = Continue st'"
         "file_names_list st' = file_names_list after_first_syscall"
    by blast
  from t have c: "calls (ctl_state (tracer_iteration example_config openat_etc_my_cnf after_first_syscall))
          = calls after_first_syscall @ [PTRACE_SYSCALL, WAITPID]
              @ entry_log example_config openat_etc_my_cnf
              @ [PTRACE_SETREGS (patch (getregs openat_etc_my_cnf)
                   (length (entry_path example_config openat_etc_my_cnf) + 1))]"
    by blast
  have c': "calls (ctl_state (tracer_iteration example_config openat_etc_my_cnf after_first_syscall))
        = calls after_first_syscall
          @ [PTRACE_SYSCALL, WAITPID, PTRACE_GETREGS, PTRACE_PEEKDATA 0x1000,
             PTRACE_PEEKDATA 0x1008,
             PTRACE_SETREGS \<lparr>orig_rax = 257, rdi = 0xffffffffffffff9c, rsi = 0x100c\<rparr>]"
    unfolding c log pt by simp
  have f: "file_names_list
         (ctl_state (tracer_iteration example_config openat_etc_my_cnf after_first_syscall))
        = 10 # bytes ''/etc/my.cnf'' @ [10]"
    using st' by (simp add: after_first_syscall_def)
  from t nn have b11: "remote_byte (peekdata openat_etc_my_cnf) 0x1000 11 = Some 0"
    unfolding pa len by blast
  from t have p12: "path_argument (patch (getregs openat_etc_my_cnf)
          (length (entry_path example_config openat_etc_my_cnf) + 1)) = 0x100c"
    unfolding pa len by simp
  from etc_my_cnf_stop_again etc_my_cnf_monitored r etc_my_cnf_matches etc_my_cnf_no_error
    etc_my_cnf_fits dup c' f pa len b11 p12 b12
  show ?thesis by blast
qed

text \<open>
  C2. With \<open>PGOPTIONFILES_READ = 0\<close>, at a syscall-entry stop of a monitored syscall
  whose path matches, the byte that ends the path in the subordinate's memory (a zero
  byte, or a byte that cannot be read) lies at the offset the string reader returned,
  but the registers written back by the last call hold, as the address of the path,
  the original address plus that offset plus one: the offset added counts the
  delimiter stored in front of the copied path, so the register points one byte past
  the terminating zero byte, not at it.
\<close>

theorem patched_register_past_terminator:
  assumes "entry_stop cfg st ev"
    and "monitored (orig_rax (getregs ev))"
    and "PGOPTIONFILES_READ cfg = 0"
    and "matches cfg (entry_path cfg ev)"
    and "\<not> strncmp_eq (entry_path cfg ev) (bytes ''Error: '') 7"
    and "int (length (entry_path cfg ev)) + 2 < PATH_MAX cfg"
  shows "\<exists>patched n.
           return_value (pgoptionfiles_copy_from_tracee cfg (peekdata ev)
                           (path_argument (getregs ev))) = int n
           \<and> (remote_byte (peekdata ev) (path_argument (getregs ev)) n = Some 0
                \<or> remote_byte (peekdata ev) (path_argument (getregs ev)) n = None)
           \<and> last (calls (ctl_state (tracer_iteration cfg ev st))) = PTRACE_SETREGS patched
           \<and> path_argument patched = path_argument (getregs ev) + of_nat n + 1"
proof -
  let ?p = "entry_path cfg ev"
  let ?src = "path_argument (getregs ev)"
  have ne: "?p \<noteq> []" using assms(4) by (simp add: matches_def)
  have rv: "return_value (pgoptionfiles_copy_from_tracee cfg (peekdata ev) ?src)
              = int (length ?p)"
    by (rule entry_path_dest(2)[OF ne])
  have src: "?src \<noteq> 0"
  proof
    assume "?src = 0"
    then have "dest (pgoptionfiles_copy_from_tracee cfg (peekdata ev) ?src) = []"
      by (simp add: pgoptionfiles_copy_from_tracee_def)
    with entry_path_dest(1)[OF ne] show False by simp
  qed
  from copy_from_tracee_reads[OF src, of cfg "peekdata ev"] entry_path_dest(1)[OF ne]
  have "int (length ?p) \<ge> PATH_MAX cfg - 1
          \<or> remote_byte (peekdata ev) ?src (length ?p) = None
          \<or> remote_byte (peekdata ev) ?src (length ?p) = Some 0"
    by auto
  with assms(6) have ends: "remote_byte (peekdata ev) ?src (length ?p) = Some 0
          \<or> remote_byte (peekdata ev) ?src (length ?p) = None"
    by auto
  have "calls (ctl_state (tracer_iteration cfg ev st))
          = calls st @ [PTRACE_SYSCALL, WAITPID] @ entry_log cfg ev
              @ [PTRACE_SETREGS (patch (getregs ev) (length ?p + 1))]"
    using assms(3) matching_entry_result[OF assms(1,2,4,5,6)] by (simp add: Let_def)
  then have l: "last (calls (ctl_state (tracer_iteration cfg ev st)))
               = PTRACE_SETREGS (patch (getregs ev) (length ?p + 1))"
    by simp
  have pa: "path_argument (patch (getregs ev) (length ?p + 1)) = ?src + of_nat (length ?p) + 1"
    by (simp add: path_argument_def patch_def)
  from rv ends l pa show ?thesis by blast
qed

theorem patched_register_past_terminator_witness:
  "entry_stop example_config after_initial_stop openat_etc_my_cnf
   \<and> monitored (orig_rax (getregs openat_etc_my_cnf))
   \<and> PGOPTIONFILES_READ example_config = 0
   \<and> matches example_config (entry_path example_config openat_etc_my_cnf)
   \<and> \<not> strncmp_eq (entry_path example_config openat_etc_my_cnf) (bytes ''Error: '') 7
   \<and> int (length (entry_path example_config openat_etc_my_cnf)) + 2 < PATH_MAX example_config
   \<and> path_argument (getregs openat_etc_my_cnf) = 0x1000
   \<and> return_value (pgoptionfiles_copy_from_tracee example_config etc_my_cnf_memory 0x1000) = 11
   \<and> remote_byte etc_my_cnf_memory 0x1000 11 = Some 0
   \<and> remote_byte etc_my_cnf_memory 0x1000 12 = Some 0x58
   \<and> (\<exists>patched.
         last (calls (ctl_state
                 (tracer_iteration example_config openat_etc_my_cnf after_initial_stop)))
           = PTRACE_SETREGS patched
         \<and> path_argument patched = 0x100c)"
proof -
  have r: "PGOPTIONFILES_READ example_config = 0" by (simp add: example_config_def)
  have rv: "return_value (pgoptionfiles_copy_from_tracee example_config etc_my_cnf_memory 0x1000) = 11"
    by (simp add: example_defs eval_defs)
  have pa: "path_argument (getregs openat_etc_my_cnf) = 0x1000"
    by (simp add: path_argument_def syscall_numbers openat_etc_my_cnf_def)
  have pk: "peekdata openat_etc_my_cnf = etc_my_cnf_memory"
    by (simp add: openat_etc_my_cnf_def)
  have b11: "remote_byte etc_my_cnf_memory 0x1000 11 = Some 0"
    by (simp add: remote_byte_def etc_my_cnf_memory_def word_byte_eval)
  have b12: "remote_byte etc_my_cnf_memory 0x1000 12 = Some 0x58"
    by (simp add: remote_byte_def etc_my_cnf_memory_def word_byte_eval)
  from patched_register_past_terminator[OF etc_my_cnf_stop etc_my_cnf_monitored r etc_my_cnf_matches etc_my_cnf_no_error etc_my_cnf_fits]
  obtain patched n where
    pn: "return_value (pgoptionfiles_copy_from_tracee example_config etc_my_cnf_memory 0x1000)
           = int n"
        "last (calls (ctl_state
                 (tracer_iteration example_config openat_etc_my_cnf after_initial_stop)))
           = PTRACE_SETREGS patched"
        "path_argument patched = 0x1000 + of_nat n + 1"
    unfolding pa pk by blast
  from pn(1) rv have "n = 11" by simp
  with pn(3) have "path_argument patched = 0x100c" by simp
  with pn(2) have "\<exists>patched.
         last (calls (ctl_state
                 (tracer_iteration example_config openat_etc_my_cnf after_initial_stop)))
           = PTRACE_SETREGS patched
         \<and> path_argument patched = 0x100c"
    by blast
  with etc_my_cnf_stop etc_my_cnf_monitored r etc_my_cnf_matches etc_my_cnf_no_error etc_my_cnf_fits pa rv b11 b12 show ?thesis by blast
qed

section \<open>The loop\<close>

lemma pgoptionfiles_tracer_loop:
  "pgoptionfiles_tracer cfg evs fl0 el0 =
     (case tracer_loop cfg evs (initial_state fl0 el0) of
        Break st \<Rightarrow>
          Returned (st\<lparr>file_names_list :=
                        eliminate (PGOPTIONFILES_DELIMITER cfg) (file_names_list st) []\<rparr>)
      | Continue st \<Rightarrow> Blocked st
      | Overflow st \<Rightarrow> Undefined st)"
  by (simp add: pgoptionfiles_tracer_def)

lemma tracer_loop_append:
  "tracer_loop cfg pre st = Continue st' \<Longrightarrow>
     tracer_loop cfg (pre @ evs) st = tracer_loop cfg evs st'"
proof (induction pre arbitrary: st)
  case Nil
  then show ?case by simp
next
  case (Cons ev pre)
  then show ?case by (cases "tracer_iteration cfg ev st") auto
qed

lemma error_break_not_Continue: "error_break st msg rc \<noteq> Continue st'"
  by (simp add: error_break_def)

lemma syscall_entry_Continue:
  assumes "syscall_entry cfg ev st = Continue st'"
  shows "retcode st' = retcode st \<and> error_list st' = error_list st
           \<and> trace_number st' = trace_number st"
  using assms
  by (auto simp: syscall_entry_paths Let_def error_break_not_Continue split: if_splits)

lemma tracer_iteration_Continue:
  assumes "tracer_iteration cfg ev st = Continue st'"
  shows "retcode st' = retcode st \<and> error_list st' = error_list st
           \<and> trace_number st' = trace_number st"
proof (cases "entry_stop cfg st ev")
  case True
  from assms syscall_entry_Continue[of cfg ev "st\<lparr>calls := calls st @ [PTRACE_SYSCALL, WAITPID]\<rparr>" st']
  show ?thesis by (simp add: tracer_iteration_entry[OF True])
next
  case False
  have z: "trace_number st = 0 \<Longrightarrow> \<not> 0 < trace_number st" by simp
  from assms False show ?thesis
    by (auto simp: tracer_iteration_def Let_def entry_stop_def error_break_not_Continue
          word_greater_zero_iff split: if_splits)
qed

lemma tracer_loop_Continue:
  "tracer_loop cfg pre st = Continue st' \<Longrightarrow>
     retcode st' = retcode st \<and> error_list st' = error_list st"
proof (induction pre arbitrary: st)
  case Nil
  then show ?case by simp
next
  case (Cons ev pre)
  show ?case
  proof (cases "tracer_iteration cfg ev st")
    case (Continue s)
    from tracer_iteration_Continue[OF Continue] Cons.prems Continue
      Cons.IH[of "s\<lparr>trace_number := trace_number s + 1\<rparr>"]
    show ?thesis by simp
  next
    case (Break s)
    with Cons.prems show ?thesis by simp
  next
    case (Overflow s)
    with Cons.prems show ?thesis by simp
  qed
qed

text \<open>
  The tracer does not wait for ever once a wait has reported the exit of the
  subordinate: on observations that hold such a wait it returns, or its behaviour is
  undefined because a string was too long for its array.
\<close>

lemma exit_leaves_loop:
  assumes "WIFEXITED (wstatus ev)"
  shows "tracer_iteration cfg ev st \<noteq> Continue st'"
  using assms
  by (auto simp: tracer_iteration_def Let_def error_break_not_Continue)

lemma exit_ends_wait:
  assumes "\<exists>ev \<in> set evs. WIFEXITED (wstatus ev)"
  shows "pgoptionfiles_tracer cfg evs file_names_list0 error_list0 \<noteq> Blocked st"
proof -
  have "tracer_loop cfg evs s \<noteq> Continue st" for s
    using assms
  proof (induction evs arbitrary: s)
    case Nil
    then show ?case by simp
  next
    case (Cons ev evs)
    show ?case
    proof (cases "tracer_iteration cfg ev s")
      case (Continue s1)
      with exit_leaves_loop[of ev cfg s s1] have "\<not> WIFEXITED (wstatus ev)" by blast
      with Cons.prems have "\<exists>ev \<in> set evs. WIFEXITED (wstatus ev)" by simp
      from Cons.IH[OF this] Continue show ?thesis by simp
    next
      case (Break s1)
      then show ?thesis by simp
    next
      case (Overflow s1)
      then show ?thesis by simp
    qed
  qed
  then show ?thesis
    by (auto simp: pgoptionfiles_tracer_loop split: ctl.splits)
qed

lemmas run_defs = tracer_iteration_def syscall_entry_def error_break_def
  WIFEXITED_def WIFSTOPPED_def WSTOPSIG_def SIGSTOP_def SIGKILL_def SIGTERM_def
  syscall_numbers strncmp_eq_def error_list_size_def

lemma first_syscall_run:
  "tracer_loop cfg [initial_sigstop, openat_etc_my_cnf, syscall_exit_stop]
     (initial_state [] (bytes ''(pgoptionfiles)'')) = Continue after_first_syscall"
  if "PATH_MAX cfg = 4096" "PGOPTIONFILES_DELIMITER cfg = 10" "PGOPTIONFILES_READ cfg = 0"
     "PGOPTIONFILES_USE_TIMEOUT cfg = 0" "13 < PGOPTIONFILES_MAX_FILE_NAMES_LIST_SIZE cfg" for cfg
proof -
  have i0: "tracer_iteration cfg initial_sigstop
              \<lparr>trace_number = 0, retcode = 0, file_names_list = [],
               error_list = bytes ''(pgoptionfiles)'', calls = []\<rparr>
            = Continue \<lparr>trace_number = 0, retcode = 0, file_names_list = [],
               error_list = bytes ''(pgoptionfiles)'', calls = [WAITPID]\<rparr>"
    using that by (simp add: run_defs initial_sigstop_def)
  have i1: "tracer_iteration cfg openat_etc_my_cnf
              \<lparr>trace_number = 1, retcode = 0, file_names_list = [],
               error_list = bytes ''(pgoptionfiles)'', calls = [WAITPID]\<rparr>
            = Continue \<lparr>trace_number = 1, retcode = 0,
                file_names_list = 10 # bytes ''/etc/my.cnf'' @ [10],
                error_list = bytes ''(pgoptionfiles)'',
                calls = [WAITPID, PTRACE_SYSCALL, WAITPID, PTRACE_GETREGS, PTRACE_PEEKDATA 0x1000,
                         PTRACE_PEEKDATA 0x1008,
                         PTRACE_SETREGS \<lparr>orig_rax = 257, rdi = 0xffffffffffffff9c, rsi = 0x100c\<rparr>]\<rparr>"
    using that by (simp add: run_defs example_defs eval_defs)
  have i2: "tracer_iteration cfg syscall_exit_stop
              \<lparr>trace_number = 2, retcode = 0,
                file_names_list = 10 # bytes ''/etc/my.cnf'' @ [10],
                error_list = bytes ''(pgoptionfiles)'',
                calls = [WAITPID, PTRACE_SYSCALL, WAITPID, PTRACE_GETREGS, PTRACE_PEEKDATA 0x1000,
                         PTRACE_PEEKDATA 0x1008,
                         PTRACE_SETREGS \<lparr>orig_rax = 257, rdi = 0xffffffffffffff9c, rsi = 0x100c\<rparr>]\<rparr>
            = Continue \<lparr>trace_number = 2, retcode = 0,
                file_names_list = 10 # bytes ''/etc/my.cnf'' @ [10],
                error_list = bytes ''(pgoptionfiles)'',
                calls = [WAITPID, PTRACE_SYSCALL, WAITPID, PTRACE_GETREGS, PTRACE_PEEKDATA 0x1000,
                         PTRACE_PEEKDATA 0x1008,
                         PTRACE_SETREGS \<lparr>orig_rax = 257, rdi = 0xffffffffffffff9c, rsi = 0x100c\<rparr>,
                         PTRACE_SYSCALL, WAITPID]\<rparr>"
    by (simp add: run_defs syscall_exit_stop_def)
  show ?thesis
    unfolding initial_state_def after_first_syscall_def
    by (simp add: i0 i1 i2)
qed

text \<open>
  C4. Let the loop have run over some observations without leaving, and let the next
  one be a syscall-entry stop of a monitored syscall whose extracted string begins with
  \<open>Error: \<close> (and fits the arrays). Then the tracer returns \<open>-6\<close> whatever follows
  and whether or not the string contains \<open>my.cnf\<close>: the error text is the caller's
  text followed by that string, and the list of file names is the list as it stood
  before the stop, with its delimiters normalised.
\<close>

theorem error_marker_ends_session:
  assumes "tracer_loop cfg pre (initial_state file_names_list0 error_list0) = Continue st"
    and "entry_stop cfg st ev"
    and "monitored (orig_rax (getregs ev))"
    and "strncmp_eq (entry_path cfg ev) (bytes ''Error: '') 7"
    and "int (length (entry_path cfg ev)) + 2 \<le> PATH_MAX cfg"
    and "length error_list0 + length (entry_path cfg ev) < error_list_size"
  shows "pgoptionfiles_tracer cfg (pre @ ev # rest) file_names_list0 error_list0 =
           Returned (st\<lparr>retcode := - 6,
             error_list := error_list0 @ entry_path cfg ev,
             file_names_list :=
               eliminate (PGOPTIONFILES_DELIMITER cfg) (file_names_list st) [],
             calls := calls st @ [PTRACE_SYSCALL, WAITPID] @ entry_log cfg ev\<rparr>)"
proof -
  let ?p = "entry_path cfg ev"
  have ne: "?p \<noteq> []"
    using assms(4) by (auto simp: strncmp_eq_def bytes_def)
  from tracer_loop_Continue[OF assms(1)] have el: "error_list st = error_list0"
    by (simp add: initial_state_def)
  from entry_path_dest(1)[OF ne] assms(5)
  have fit: "\<not> int (length (dest (pgoptionfiles_copy_from_tracee cfg (peekdata ev)
                                 (path_argument (getregs ev))))) + 1 > PATH_MAX cfg"
    by simp
  have "tracer_iteration cfg ev st =
          Break (st\<lparr>calls := calls st @ [PTRACE_SYSCALL, WAITPID] @ entry_log cfg ev,
                   error_list := error_list0 @ ?p, retcode := - 6\<rparr>)"
    using assms(3,4,6) ne fit el
    by (simp add: tracer_iteration_entry[OF assms(2)] syscall_entry_paths Let_def
          error_break_def)
  then have "tracer_loop cfg (ev # rest) st =
          Break (st\<lparr>calls := calls st @ [PTRACE_SYSCALL, WAITPID] @ entry_log cfg ev,
                   error_list := error_list0 @ ?p, retcode := - 6\<rparr>)"
    by simp
  with tracer_loop_append[OF assms(1), of "ev # rest"] show ?thesis
    by (simp add: pgoptionfiles_tracer_loop)
qed

lemma error_message_path: "entry_path example_config openat_error = bytes ''Error: raise sigstop failed.''"
  by (simp add: entry_path_def path_argument_def syscall_numbers openat_error_def
        example_config_def eval_defs)

theorem error_marker_ends_session_witness:
  "tracer_loop example_config [initial_sigstop, openat_etc_my_cnf, syscall_exit_stop]
     (initial_state [] (bytes ''(pgoptionfiles)'')) = Continue after_first_syscall
   \<and> entry_stop example_config after_first_syscall openat_error
   \<and> monitored (orig_rax (getregs openat_error))
   \<and> strncmp_eq (entry_path example_config openat_error) (bytes ''Error: '') 7
   \<and> int (length (entry_path example_config openat_error)) + 2 \<le> PATH_MAX example_config
   \<and> length (bytes ''(pgoptionfiles)'') + length (entry_path example_config openat_error)
        < error_list_size
   \<and> main_tracer example_config
        [initial_sigstop, openat_etc_my_cnf, syscall_exit_stop, openat_error, syscall_exit_stop]
      = Returned \<lparr>trace_number = 3, retcode = - 6,
          file_names_list = bytes ''/etc/my.cnf'',
          error_list = bytes ''(pgoptionfiles)Error: raise sigstop failed.'',
          calls = [WAITPID, PTRACE_SYSCALL, WAITPID, PTRACE_GETREGS, PTRACE_PEEKDATA 0x1000,
                   PTRACE_PEEKDATA 0x1008,
                   PTRACE_SETREGS \<lparr>orig_rax = 257, rdi = 0xffffffffffffff9c, rsi = 0x100c\<rparr>,
                   PTRACE_SYSCALL, WAITPID, PTRACE_SYSCALL, WAITPID, PTRACE_GETREGS,
                   PTRACE_PEEKDATA 0x3000, PTRACE_PEEKDATA 0x3008, PTRACE_PEEKDATA 0x3010,
                   PTRACE_PEEKDATA 0x3018]\<rparr>"
proof -
  have h1: "tracer_loop example_config [initial_sigstop, openat_etc_my_cnf, syscall_exit_stop]
     (initial_state [] (bytes ''(pgoptionfiles)'')) = Continue after_first_syscall"
    by (rule first_syscall_run) (simp_all add: example_config_def)
  have h2: "entry_stop example_config after_first_syscall openat_error"
    by (simp add: entry_stop_def after_first_syscall_def openat_error_def example_config_def
          WIFEXITED_def)
  have h3: "monitored (orig_rax (getregs openat_error))"
    by (simp add: monitored_def openat_error_def)
  have h4: "strncmp_eq (entry_path example_config openat_error) (bytes ''Error: '') 7"
    unfolding error_message_path by (simp add: strncmp_eq_def bytes_def)
  have h5: "int (length (entry_path example_config openat_error)) + 2 \<le> PATH_MAX example_config"
    unfolding error_message_path by (simp add: bytes_def example_config_def)
  have h6: "length (bytes ''(pgoptionfiles)'') + length (entry_path example_config openat_error)
        < error_list_size"
    unfolding error_message_path by (simp add: bytes_def error_list_size_def)
  have log: "entry_log example_config openat_error
               = [PTRACE_GETREGS, PTRACE_PEEKDATA 0x3000, PTRACE_PEEKDATA 0x3008,
                  PTRACE_PEEKDATA 0x3010, PTRACE_PEEKDATA 0x3018]"
    by (simp add: entry_log_def path_argument_def syscall_numbers openat_error_def
          example_config_def eval_defs)
  have d: "PGOPTIONFILES_DELIMITER example_config = 10" by (simp add: example_config_def)
  from error_marker_ends_session[OF h1 h2 h3 h4 h5 h6, of "[syscall_exit_stop]"]
  have "main_tracer example_config
        [initial_sigstop, openat_etc_my_cnf, syscall_exit_stop, openat_error, syscall_exit_stop]
      = Returned \<lparr>trace_number = 3, retcode = - 6,
          file_names_list = bytes ''/etc/my.cnf'',
          error_list = bytes ''(pgoptionfiles)Error: raise sigstop failed.'',
          calls = [WAITPID, PTRACE_SYSCALL, WAITPID, PTRACE_GETREGS, PTRACE_PEEKDATA 0x1000,
                   PTRACE_PEEKDATA 0x1008,
                   PTRACE_SETREGS \<lparr>orig_rax = 257, rdi = 0xffffffffffffff9c, rsi = 0x100c\<rparr>,
                   PTRACE_SYSCALL, WAITPID, PTRACE_SYSCALL, WAITPID, PTRACE_GETREGS,
                   PTRACE_PEEKDATA 0x3000, PTRACE_PEEKDATA 0x3008, PTRACE_PEEKDATA 0x3010,
                   PTRACE_PEEKDATA 0x3018]\<rparr>"
    unfolding error_message_path log d main_tracer_def
    by (simp add: after_first_syscall_def bytes_def)
  with h1 h2 h3 h4 h5 h6 show ?thesis by blast
qed

text \<open>
  C5. Let the loop have run over some observations without leaving, and let the next
  one be a syscall-entry stop of a monitored syscall whose path matches, is not yet in
  the list, and whose delimited form would bring the list to
  \<open>PGOPTIONFILES_MAX_FILE_NAMES_LIST_SIZE\<close> bytes or more. Then the tracer returns
  whatever follows: the return code is 0, the error text is the caller's, and the list
  of file names is the list as it stood before the stop, with its delimiters normalised.
\<close>

theorem capacity_ends_collection:
  assumes "tracer_loop cfg pre (initial_state file_names_list0 error_list0) = Continue st"
    and "entry_stop cfg st ev"
    and "monitored (orig_rax (getregs ev))"
    and "matches cfg (entry_path cfg ev)"
    and "\<not> strncmp_eq (entry_path cfg ev) (bytes ''Error: '') 7"
    and "int (length (entry_path cfg ev)) + 2 < PATH_MAX cfg"
    and "\<not> sublist (wrap (PGOPTIONFILES_DELIMITER cfg) (entry_path cfg ev)) (file_names_list st)"
    and "length (file_names_list st) + length (wrap (PGOPTIONFILES_DELIMITER cfg) (entry_path cfg ev))
           \<ge> PGOPTIONFILES_MAX_FILE_NAMES_LIST_SIZE cfg"
  shows "pgoptionfiles_tracer cfg (pre @ ev # rest) file_names_list0 error_list0 =
           Returned (st\<lparr>retcode := 0, error_list := error_list0,
             file_names_list :=
               eliminate (PGOPTIONFILES_DELIMITER cfg) (file_names_list st) [],
             calls := calls st @ [PTRACE_SYSCALL, WAITPID] @ entry_log cfg ev
               @ (if PGOPTIONFILES_READ cfg = 0
                  then [PTRACE_SETREGS (patch (getregs ev) (length (entry_path cfg ev) + 1))]
                  else [])\<rparr>)"
proof -
  from tracer_loop_Continue[OF assms(1)]
  have inv: "retcode st = 0" "error_list st = error_list0"
    by (simp_all add: initial_state_def)
  have "tracer_iteration cfg ev st =
          Break (st\<lparr>calls := calls st @ [PTRACE_SYSCALL, WAITPID] @ entry_log cfg ev
               @ (if PGOPTIONFILES_READ cfg = 0
                  then [PTRACE_SETREGS (patch (getregs ev) (length (entry_path cfg ev) + 1))]
                  else [])\<rparr>)"
    using matching_entry_result[OF assms(2,3,4,5,6)] assms(7,8) by (simp add: Let_def)
  then have "tracer_loop cfg (ev # rest) st =
          Break (st\<lparr>calls := calls st @ [PTRACE_SYSCALL, WAITPID] @ entry_log cfg ev
               @ (if PGOPTIONFILES_READ cfg = 0
                  then [PTRACE_SETREGS (patch (getregs ev) (length (entry_path cfg ev) + 1))]
                  else [])\<rparr>)"
    by simp
  with tracer_loop_append[OF assms(1), of "ev # rest"] inv show ?thesis
    by (simp add: pgoptionfiles_tracer_loop)
qed

lemma home_my_cnf_path_small: "entry_path small_list_config access_home_my_cnf = bytes ''/home/u/.my.cnf''"
  by (simp add: entry_path_def path_argument_def syscall_numbers access_home_my_cnf_def
        small_list_config_def example_config_def eval_defs)

theorem capacity_ends_collection_witness:
  "tracer_loop small_list_config [initial_sigstop, openat_etc_my_cnf, syscall_exit_stop]
     (initial_state [] (bytes ''(pgoptionfiles)'')) = Continue after_first_syscall
   \<and> entry_stop small_list_config after_first_syscall access_home_my_cnf
   \<and> monitored (orig_rax (getregs access_home_my_cnf))
   \<and> matches small_list_config (entry_path small_list_config access_home_my_cnf)
   \<and> \<not> strncmp_eq (entry_path small_list_config access_home_my_cnf) (bytes ''Error: '') 7
   \<and> int (length (entry_path small_list_config access_home_my_cnf)) + 2 < PATH_MAX small_list_config
   \<and> \<not> sublist (wrap (PGOPTIONFILES_DELIMITER small_list_config)
                    (entry_path small_list_config access_home_my_cnf))
          (file_names_list after_first_syscall)
   \<and> length (file_names_list after_first_syscall)
       + length (wrap (PGOPTIONFILES_DELIMITER small_list_config)
                   (entry_path small_list_config access_home_my_cnf))
       \<ge> PGOPTIONFILES_MAX_FILE_NAMES_LIST_SIZE small_list_config
   \<and> main_tracer small_list_config
        [initial_sigstop, openat_etc_my_cnf, syscall_exit_stop, access_home_my_cnf,
         syscall_exit_stop]
      = Returned \<lparr>trace_number = 3, retcode = 0,
          file_names_list = bytes ''/etc/my.cnf'',
          error_list = bytes ''(pgoptionfiles)'',
          calls = [WAITPID, PTRACE_SYSCALL, WAITPID, PTRACE_GETREGS, PTRACE_PEEKDATA 0x1000,
                   PTRACE_PEEKDATA 0x1008,
                   PTRACE_SETREGS \<lparr>orig_rax = 257, rdi = 0xffffffffffffff9c, rsi = 0x100c\<rparr>,
                   PTRACE_SYSCALL, WAITPID, PTRACE_SYSCALL, WAITPID, PTRACE_GETREGS,
                   PTRACE_PEEKDATA 0x2000, PTRACE_PEEKDATA 0x2008,
                   PTRACE_SETREGS \<lparr>orig_rax = 21, rdi = 0x2010, rsi = 0\<rparr>]\<rparr>"
proof -
  have h1: "tracer_loop small_list_config [initial_sigstop, openat_etc_my_cnf, syscall_exit_stop]
     (initial_state [] (bytes ''(pgoptionfiles)'')) = Continue after_first_syscall"
    by (rule first_syscall_run) (simp_all add: small_list_config_def example_config_def)
  have h2: "entry_stop small_list_config after_first_syscall access_home_my_cnf"
    by (simp add: entry_stop_def after_first_syscall_def access_home_my_cnf_def
          small_list_config_def example_config_def WIFEXITED_def)
  have h3: "monitored (orig_rax (getregs access_home_my_cnf))"
    by (simp add: monitored_def access_home_my_cnf_def)
  have h4: "matches small_list_config (entry_path small_list_config access_home_my_cnf)"
    unfolding home_my_cnf_path_small
    by (simp add: matches_def small_list_config_def example_config_def bytes_def
          sublist_Cons_right)
  have h5: "\<not> strncmp_eq (entry_path small_list_config access_home_my_cnf) (bytes ''Error: '') 7"
    unfolding home_my_cnf_path_small by (simp add: strncmp_eq_def bytes_def)
  have h6: "int (length (entry_path small_list_config access_home_my_cnf)) + 2
              < PATH_MAX small_list_config"
    unfolding home_my_cnf_path_small by (simp add: bytes_def small_list_config_def example_config_def)
  have h7: "\<not> sublist (wrap (PGOPTIONFILES_DELIMITER small_list_config)
                    (entry_path small_list_config access_home_my_cnf))
          (file_names_list after_first_syscall)"
    unfolding home_my_cnf_path_small
    by (simp add: wrap_def small_list_config_def example_config_def after_first_syscall_def
          bytes_def sublist_Cons_right)
  have h8: "length (file_names_list after_first_syscall)
       + length (wrap (PGOPTIONFILES_DELIMITER small_list_config)
                   (entry_path small_list_config access_home_my_cnf))
       \<ge> PGOPTIONFILES_MAX_FILE_NAMES_LIST_SIZE small_list_config"
    unfolding home_my_cnf_path_small
    by (simp add: wrap_def small_list_config_def example_config_def after_first_syscall_def
          bytes_def)
  have log: "entry_log small_list_config access_home_my_cnf
               = [PTRACE_GETREGS, PTRACE_PEEKDATA 0x2000, PTRACE_PEEKDATA 0x2008]"
    by (simp add: entry_log_def path_argument_def syscall_numbers access_home_my_cnf_def
          small_list_config_def example_config_def eval_defs)
  have pt: "patch (getregs access_home_my_cnf)
              (length (entry_path small_list_config access_home_my_cnf) + 1)
            = \<lparr>orig_rax = 21, rdi = 0x2010, rsi = 0\<rparr>"
    unfolding home_my_cnf_path_small
    by (simp add: patch_def syscall_numbers access_home_my_cnf_def bytes_def)
  have d: "PGOPTIONFILES_DELIMITER small_list_config = 10"
    and r: "PGOPTIONFILES_READ small_list_config = 0"
    by (simp_all add: small_list_config_def example_config_def)
  from capacity_ends_collection[OF h1 h2 h3 h4 h5 h6 h7 h8, of "[syscall_exit_stop]"]
  have "main_tracer small_list_config
        [initial_sigstop, openat_etc_my_cnf, syscall_exit_stop, access_home_my_cnf,
         syscall_exit_stop]
      = Returned \<lparr>trace_number = 3, retcode = 0,
          file_names_list = bytes ''/etc/my.cnf'',
          error_list = bytes ''(pgoptionfiles)'',
          calls = [WAITPID, PTRACE_SYSCALL, WAITPID, PTRACE_GETREGS, PTRACE_PEEKDATA 0x1000,
                   PTRACE_PEEKDATA 0x1008,
                   PTRACE_SETREGS \<lparr>orig_rax = 257, rdi = 0xffffffffffffff9c, rsi = 0x100c\<rparr>,
                   PTRACE_SYSCALL, WAITPID, PTRACE_SYSCALL, WAITPID, PTRACE_GETREGS,
                   PTRACE_PEEKDATA 0x2000, PTRACE_PEEKDATA 0x2008,
                   PTRACE_SETREGS \<lparr>orig_rax = 21, rdi = 0x2010, rsi = 0\<rparr>]\<rparr>"
    unfolding log pt d r main_tracer_def
    by (simp add: after_first_syscall_def bytes_def)
  with h1 h2 h3 h4 h5 h6 h7 h8 show ?thesis by blast
qed

section \<open>Entries, joining and splitting\<close>

lemma split_on_free: "d \<notin> set e \<Longrightarrow> split_on d e = [e]"
  by (induction e) auto

lemma split_on_append: "d \<notin> set e \<Longrightarrow> split_on d (e @ d # s) = e # split_on d s"
  by (induction e) auto

lemma entries_join:
  assumes "\<forall>e \<in> set es. e \<noteq> [] \<and> d \<notin> set e"
  shows "entries d (join d es) = es"
proof -
  have "es \<noteq> [] \<Longrightarrow> \<forall>e \<in> set es. d \<notin> set e \<Longrightarrow> split_on d (join d es) = es" for es
    by (induction d es rule: join.induct) (simp_all add: split_on_free split_on_append)
  moreover have "es \<noteq> [] \<Longrightarrow> \<forall>e \<in> set es. e \<noteq> [] \<Longrightarrow> join d es \<noteq> []" for es
    by (induction d es rule: join.induct) simp_all
  ultimately show ?thesis using assms by (cases "es = []") (auto simp: entries_def)
qed

lemma record_path_distinct: "distinct es \<Longrightarrow> distinct (record_path es p)"
  by (simp add: record_path_def)

lemma foldl_record_path_distinct: "distinct es \<Longrightarrow> distinct (foldl record_path es ps)"
  by (induction ps arbitrary: es) (simp_all add: record_path_distinct)

lemma foldl_record_path_set: "set (foldl record_path es ps) = set es \<union> set ps"
  by (induction ps arbitrary: es) (auto simp: record_path_def)

lemma first_seen_distinct: "distinct (first_seen ps)"
  by (simp add: first_seen_def foldl_record_path_distinct)

lemma first_seen_set: "set (first_seen ps) = set ps"
  by (simp add: first_seen_def foldl_record_path_set)

section \<open>Occurrences of a delimited path in the list\<close>

lemma wrapped_list_shape:
  "concat (map (wrap d) es) = [] \<or> (\<exists>t. concat (map (wrap d) es) = d # t)"
  by (cases es) (simp_all add: wrap_def)

lemma free_prefix_unique:
  assumes "p @ d # s = e @ d # r" "d \<notin> set p" "d \<notin> set e"
  shows "p = e"
  using assms
proof (induction p arbitrary: e)
  case Nil
  then show ?case by (cases e) auto
next
  case (Cons a p)
  then show ?case by (cases e) auto
qed

lemma sublist_wrapped:
  assumes p: "p \<noteq> []" "d \<notin> set p"
    and es: "\<forall>e \<in> set es. e \<noteq> [] \<and> d \<notin> set e"
  shows "sublist (wrap d p) (concat (map (wrap d) es)) \<longleftrightarrow> p \<in> set es"
proof
  assume "p \<in> set es"
  then obtain xs ys where "es = xs @ p # ys" by (auto simp: in_set_conv_decomp)
  then have "concat (map (wrap d) es)
               = concat (map (wrap d) xs) @ wrap d p @ concat (map (wrap d) ys)"
    by simp
  then show "sublist (wrap d p) (concat (map (wrap d) es))"
    unfolding sublist_def by blast
next
  assume "sublist (wrap d p) (concat (map (wrap d) es))"
  then show "p \<in> set es" using es
  proof (induction es)
    case Nil
    then show ?case by (simp add: wrap_def)
  next
    case (Cons e es)
    define rest where "rest = concat (map (wrap d) es)"
    from Cons.prems(2) have e: "e \<noteq> []" "d \<notin> set e" by simp_all
    from Cons.prems(1) have "sublist (wrap d p) (wrap d e @ rest)"
      by (simp add: rest_def)
    then obtain ps ss where "wrap d e @ rest = ps @ wrap d p @ ss"
      unfolding sublist_def by blast
    then have eq: "d # e @ d # rest = ps @ d # p @ d # ss"
      by (simp add: wrap_def)
    have no_start: "\<not> (\<exists>ss'. rest = p @ d # ss')"
    proof
      assume "\<exists>ss'. rest = p @ d # ss'"
      then obtain ss' where r: "rest = p @ d # ss'" by blast
      from wrapped_list_shape[of d es] have "rest = [] \<or> (\<exists>t. rest = d # t)"
        by (simp only: rest_def)
      with r p show False by (cases p) auto
    qed
    show ?case
    proof (cases ps)
      case Nil
      with eq have "e @ d # rest = p @ d # ss" by simp
      from free_prefix_unique[OF this[symmetric] p(2) e(2)] show ?thesis by simp
    next
      case (Cons a ps')
      with eq have eq': "e @ d # rest = ps' @ d # p @ d # ss" by auto
      then consider (left) us where "e = ps' @ us" "us @ d # rest = d # p @ d # ss"
        | (right) us where "ps' = e @ us" "d # rest = us @ d # p @ d # ss"
        by (auto simp: append_eq_append_conv2)
      then show ?thesis
      proof cases
        case left
        show ?thesis
        proof (cases us)
          case Nil
          with left(2) have "rest = p @ d # ss" by simp
          with no_start show ?thesis by blast
        next
          case (Cons u us')
          with left(2) have "u = d" by simp
          with left(1) Cons e(2) show ?thesis by simp
        qed
      next
        case right
        show ?thesis
        proof (cases us)
          case Nil
          with right(2) have "rest = p @ d # ss" by simp
          with no_start show ?thesis by blast
        next
          case (Cons u us')
          with right(2) have "rest = us' @ wrap d p @ ss" by (simp add: wrap_def)
          then have "sublist (wrap d p) rest" unfolding sublist_def by blast
          with Cons.IH Cons.prems(2) show ?thesis by (simp add: rest_def)
        qed
      qed
    qed
  qed
qed

section \<open>The normalisation of the delimiters\<close>

lemma eliminate_free:
  "d \<notin> set e \<Longrightarrow> rest \<noteq> [] \<Longrightarrow> eliminate d (e @ rest) out = eliminate d rest (out @ e)"
proof (induction e arbitrary: out)
  case Nil
  then show ?case by simp
next
  case (Cons c e)
  from Cons.prems obtain n r where nr: "e @ rest = n # r" by (cases "e @ rest") auto
  from Cons.prems have "c \<noteq> d" by auto
  then have "eliminate d (c # n # r) out = eliminate d (n # r) (out @ [c])"
    by simp
  with Cons.IH[of "out @ [c]"] Cons.prems nr show ?case by simp
qed

lemma eliminate_wrapped:
  assumes "\<forall>e \<in> set es. e \<noteq> [] \<and> d \<notin> set e"
  shows "eliminate d (concat (map (wrap d) es)) out =
           (if es = [] then out else if out = [] then join d es else out @ d # join d es)"
  using assms
proof (induction es arbitrary: out)
  case Nil
  then show ?case by simp
next
  case (Cons e es)
  define R where "R = concat (map (wrap d) es)"
  define out1 where "out1 = (if out = [] then [] else out @ [d])"
  from Cons.prems obtain a e' where e: "e = a # e'" "a \<noteq> d" "d \<notin> set e"
    by (cases e) auto
  have s1: "eliminate d (d # e @ d # R) out = eliminate d (e @ d # R) out1"
    using e by (simp add: out1_def)
  have s2: "eliminate d (e @ d # R) out1 = eliminate d (d # R) (out1 @ e)"
    using eliminate_free[OF e(3), of "d # R" out1] by simp
  have ne: "out1 @ e \<noteq> []" using e by simp
  have whole: "concat (map (wrap d) (e # es)) = d # e @ d # R"
    by (simp add: R_def wrap_def)
  show ?case
  proof (cases es)
    case Nil
    then have "R = []" by (simp add: R_def)
    with s1 s2 whole Nil show ?thesis by (simp add: out1_def)
  next
    case (Cons e2 es2)
    then have "R = d # tl R" by (simp add: R_def wrap_def)
    then have "eliminate d (d # R) (out1 @ e) = eliminate d (d # d # tl R) (out1 @ e)"
      by simp
    also have "\<dots> = eliminate d (d # tl R) (out1 @ e)" using ne by simp
    also have "\<dots> = eliminate d R (out1 @ e)" using \<open>R = d # tl R\<close> by simp
    also have "\<dots> = (out1 @ e) @ d # join d es"
      using Cons.IH[of "out1 @ e"] Cons.prems Cons ne by (simp add: R_def)
    finally have "eliminate d (d # R) (out1 @ e) = (out1 @ e) @ d # join d es" .
    with s1 s2 whole Cons show ?thesis by (simp add: out1_def)
  qed
qed

lemma sublist_pair_snoc:
  "sublist [d, d] (out @ [c]) \<longleftrightarrow> sublist [d, d] out \<or> (out \<noteq> [] \<and> last out = d \<and> c = d)"
proof (induction out)
  case Nil
  then show ?case by (simp add: sublist_Cons_right)
next
  case (Cons a out)
  then show ?case by (cases out) (auto simp: sublist_Cons_right)
qed

lemma eliminate_normal:
  assumes "s = [] \<or> last s = d"
    and "out \<noteq> [] \<longrightarrow> hd out \<noteq> d"
    and "\<not> sublist [d, d] out"
    and "out \<noteq> [] \<and> last out = d \<longrightarrow> s \<noteq> [] \<and> hd s \<noteq> d"
  shows "(eliminate d s out \<noteq> [] \<longrightarrow>
            hd (eliminate d s out) \<noteq> d \<and> last (eliminate d s out) \<noteq> d)
         \<and> \<not> sublist [d, d] (eliminate d s out)"
  using assms
proof (induction d s out rule: eliminate.induct)
  case (1 d out)
  then show ?case by auto
next
  case (2 d c out)
  then show ?case by auto
next
  case (3 d c n rest out)
  show ?case
  proof (cases "c \<noteq> d")
    case True
    have "(eliminate d (n # rest) (out @ [c]) \<noteq> [] \<longrightarrow>
            hd (eliminate d (n # rest) (out @ [c])) \<noteq> d
            \<and> last (eliminate d (n # rest) (out @ [c])) \<noteq> d)
         \<and> \<not> sublist [d, d] (eliminate d (n # rest) (out @ [c]))"
      using True "3.prems" by (intro "3.IH"(1)) (auto simp: sublist_pair_snoc hd_append)
    with True show ?thesis by simp
  next
    case cd: False
    then have ld: "out \<noteq> [] \<longrightarrow> last out \<noteq> d" using "3.prems"(4) by auto
    show ?thesis
    proof (cases "out = []")
      case True
      have "(eliminate d (n # rest) out \<noteq> [] \<longrightarrow>
            hd (eliminate d (n # rest) out) \<noteq> d \<and> last (eliminate d (n # rest) out) \<noteq> d)
         \<and> \<not> sublist [d, d] (eliminate d (n # rest) out)"
        using cd True "3.prems" by (intro "3.IH"(2)) auto
      with cd True show ?thesis by simp
    next
      case ne: False
      show ?thesis
      proof (cases "n = d")
        case True
        have "(eliminate d (n # rest) out \<noteq> [] \<longrightarrow>
            hd (eliminate d (n # rest) out) \<noteq> d \<and> last (eliminate d (n # rest) out) \<noteq> d)
         \<and> \<not> sublist [d, d] (eliminate d (n # rest) out)"
          using cd ne True "3.prems" ld by (intro "3.IH"(3)) auto
        with cd ne True show ?thesis by simp
      next
        case False
        have "(eliminate d (n # rest) (out @ [c]) \<noteq> [] \<longrightarrow>
            hd (eliminate d (n # rest) (out @ [c])) \<noteq> d
            \<and> last (eliminate d (n # rest) (out @ [c])) \<noteq> d)
         \<and> \<not> sublist [d, d] (eliminate d (n # rest) (out @ [c]))"
          using cd ne False "3.prems" ld
          by (intro "3.IH"(4)) (auto simp: sublist_pair_snoc hd_append)
        with cd ne False show ?thesis by simp
      qed
    qed
  qed
qed

section \<open>The list of file names along the loop\<close>

lemma syscall_entry_list:
  "syscall_entry cfg ev st = Continue s1 \<Longrightarrow>
     file_names_list s1 =
       (if monitored (orig_rax (getregs ev)) \<and> matches cfg (entry_path cfg ev)
           \<and> \<not> sublist (wrap (PGOPTIONFILES_DELIMITER cfg) (entry_path cfg ev)) (file_names_list st)
        then file_names_list st @ wrap (PGOPTIONFILES_DELIMITER cfg) (entry_path cfg ev)
        else file_names_list st)"
  "syscall_entry cfg ev st = Break s1 \<Longrightarrow> file_names_list s1 = file_names_list st"
  by (auto simp: syscall_entry_paths Let_def error_break_def matches_def split: if_splits)

lemma tracer_iteration_Break_list:
  assumes "tracer_iteration cfg ev st = Break s1"
  shows "file_names_list s1 = file_names_list st"
proof (cases "entry_stop cfg st ev")
  case True
  from assms syscall_entry_list(2)[of cfg ev "st\<lparr>calls := calls st @ [PTRACE_SYSCALL, WAITPID]\<rparr>" s1]
  show ?thesis by (simp add: tracer_iteration_entry[OF True])
next
  case False
  from assms False show ?thesis
    by (auto simp: tracer_iteration_def Let_def entry_stop_def error_break_def
          word_greater_zero_iff split: if_splits)
qed

lemma tracer_iteration_Continue_list:
  assumes "tracer_iteration cfg ev st = Continue s1"
  shows "file_names_list s1 =
       (if trace_number st mod 2 = 1 \<and> monitored (orig_rax (getregs ev))
           \<and> matches cfg (entry_path cfg ev)
           \<and> \<not> sublist (wrap (PGOPTIONFILES_DELIMITER cfg) (entry_path cfg ev)) (file_names_list st)
        then file_names_list st @ wrap (PGOPTIONFILES_DELIMITER cfg) (entry_path cfg ev)
        else file_names_list st)"
proof (cases "entry_stop cfg st ev")
  case True
  then have "trace_number st mod 2 = 1" by (simp add: entry_stop_def)
  with assms syscall_entry_list(1)[of cfg ev "st\<lparr>calls := calls st @ [PTRACE_SYSCALL, WAITPID]\<rparr>" s1]
  show ?thesis by (simp add: tracer_iteration_entry[OF True])
next
  case False
  from assms False show ?thesis
    by (auto simp: tracer_iteration_def Let_def entry_stop_def error_break_def
          word_greater_zero_iff split: if_splits)
qed

lemma tracer_loop_list_end:
  assumes "tracer_loop cfg evs st = Break st'"
    and "file_names_list st = [] \<or> last (file_names_list st) = PGOPTIONFILES_DELIMITER cfg"
  shows "file_names_list st' = [] \<or> last (file_names_list st') = PGOPTIONFILES_DELIMITER cfg"
  using assms
proof (induction evs arbitrary: st)
  case Nil
  then show ?case by simp
next
  case (Cons ev evs)
  show ?case
  proof (cases "tracer_iteration cfg ev st")
    case (Continue s1)
    from tracer_iteration_Continue_list[OF Continue] Cons.prems(2)
    have "file_names_list s1 = [] \<or> last (file_names_list s1) = PGOPTIONFILES_DELIMITER cfg"
      by (auto simp: wrap_def)
    with Cons.IH[of "s1\<lparr>trace_number := trace_number s1 + 1\<rparr>"] Cons.prems(1) Continue
    show ?thesis by simp
  next
    case (Break s1)
    with Cons.prems tracer_iteration_Break_list[OF Break] show ?thesis by simp
  next
    case (Overflow s1)
    with Cons.prems show ?thesis by simp
  qed
qed

lemma returned_from_loop:
  assumes "pgoptionfiles_tracer cfg evs fl0 el0 = Returned s"
  obtains st where "tracer_loop cfg evs (initial_state fl0 el0) = Break st"
    and "s = st\<lparr>file_names_list :=
                 eliminate (PGOPTIONFILES_DELIMITER cfg) (file_names_list st) []\<rparr>"
  using assms
  by (cases "tracer_loop cfg evs (initial_state fl0 el0)")
     (auto simp: pgoptionfiles_tracer_loop)

text \<open>
  C3. When the tracer, called with an empty list of file names, returns, the list does
  not begin with the delimiter, does not end with it, and nowhere holds two delimiters
  side by side.
\<close>

theorem final_list_delimiters:
  assumes "pgoptionfiles_tracer cfg evs [] error_list0 = Returned s"
  shows "(file_names_list s \<noteq> [] \<longrightarrow>
            hd (file_names_list s) \<noteq> PGOPTIONFILES_DELIMITER cfg
            \<and> last (file_names_list s) \<noteq> PGOPTIONFILES_DELIMITER cfg)
         \<and> \<not> sublist [PGOPTIONFILES_DELIMITER cfg, PGOPTIONFILES_DELIMITER cfg]
               (file_names_list s)"
proof -
  from assms obtain st where
    st: "tracer_loop cfg evs (initial_state [] error_list0) = Break st"
        "s = st\<lparr>file_names_list :=
                 eliminate (PGOPTIONFILES_DELIMITER cfg) (file_names_list st) []\<rparr>"
    by (rule returned_from_loop)
  from tracer_loop_list_end[OF st(1)]
  have e: "file_names_list st = [] \<or> last (file_names_list st) = PGOPTIONFILES_DELIMITER cfg"
    by (simp add: initial_state_def)
  from eliminate_normal[OF e, of "[]"] st(2) show ?thesis by simp
qed

lemma seen_paths_nonempty: "\<forall>p \<in> set (seen_paths cfg tn evs). p \<noteq> []"
  by (induction evs arbitrary: tn) (auto simp: matches_def)

lemma loop_collects:
  assumes "tracer_loop cfg evs st = Break st'"
    and "file_names_list st = concat (map (wrap (PGOPTIONFILES_DELIMITER cfg)) es)"
    and "\<forall>e \<in> set es. e \<noteq> [] \<and> PGOPTIONFILES_DELIMITER cfg \<notin> set e"
    and "\<forall>p \<in> set (seen_paths cfg (trace_number st) evs). PGOPTIONFILES_DELIMITER cfg \<notin> set p"
  shows "\<exists>n<length evs. \<exists>stn.
           tracer_loop cfg (take n evs) st = Continue stn
           \<and> tracer_iteration cfg (evs ! n) stn = Break st'
           \<and> file_names_list st' =
               concat (map (wrap (PGOPTIONFILES_DELIMITER cfg))
                 (foldl record_path es (seen_paths cfg (trace_number st) (take n evs))))"
  using assms
proof (induction evs arbitrary: st es)
  case Nil
  then show ?case by simp
next
  case (Cons ev evs)
  let ?D = "PGOPTIONFILES_DELIMITER cfg"
  let ?p = "entry_path cfg ev"
  define cond where
    "cond \<longleftrightarrow> trace_number st mod 2 = 1 \<and> monitored (orig_rax (getregs ev)) \<and> matches cfg ?p"
  show ?case
  proof (cases "tracer_iteration cfg ev st")
    case (Break s1)
    with Cons.prems(1) have "s1 = st'" by simp
    with Break tracer_iteration_Break_list[OF Break] Cons.prems(2)
    have "tracer_loop cfg (take 0 (ev # evs)) st = Continue st
           \<and> tracer_iteration cfg ((ev # evs) ! 0) st = Break st'
           \<and> file_names_list st' =
               concat (map (wrap ?D)
                 (foldl record_path es (seen_paths cfg (trace_number st) (take 0 (ev # evs)))))"
      by simp
    then show ?thesis by blast
  next
    case (Overflow s1)
    with Cons.prems(1) show ?thesis by simp
  next
    case (Continue s1)
    define es1 where "es1 = (if cond then record_path es ?p else es)"
    define st1 where "st1 = s1\<lparr>trace_number := trace_number s1 + 1\<rparr>"
    from tracer_iteration_Continue[OF Continue]
    have tn: "trace_number st1 = trace_number st + 1" by (simp add: st1_def)
    have free: "cond \<Longrightarrow> ?p \<noteq> [] \<and> ?D \<notin> set ?p"
      using Cons.prems(4) by (auto simp: matches_def cond_def)
    have step: "file_names_list s1 =
       (if cond \<and> \<not> sublist (wrap ?D ?p) (file_names_list st)
        then file_names_list st @ wrap ?D ?p else file_names_list st)"
      using tracer_iteration_Continue_list[OF Continue] unfolding cond_def by simp
    have l1: "file_names_list st1 = concat (map (wrap ?D) es1)"
    proof (cases cond)
      case False
      with step Cons.prems(2) show ?thesis
        by (simp add: st1_def es1_def)
    next
      case True
      from free[OF True] sublist_wrapped[of ?p ?D es] Cons.prems(3)
      have "sublist (wrap ?D ?p) (concat (map (wrap ?D) es)) \<longleftrightarrow> ?p \<in> set es" by blast
      with True step Cons.prems(2) show ?thesis
        by (simp add: st1_def es1_def record_path_def)
    qed
    have i1: "\<forall>e \<in> set es1. e \<noteq> [] \<and> ?D \<notin> set e"
      using Cons.prems(3) free by (auto simp: es1_def record_path_def split: if_splits)
    have f1: "\<forall>p \<in> set (seen_paths cfg (trace_number st1) evs). ?D \<notin> set p"
      using Cons.prems(4) tn by simp
    have loop1: "tracer_loop cfg evs st1 = Break st'"
      using Cons.prems(1) Continue by (simp add: st1_def)
    from Cons.IH[OF loop1 l1 i1 f1] obtain n stn where
      n: "n < length evs" "tracer_loop cfg (take n evs) st1 = Continue stn"
         "tracer_iteration cfg (evs ! n) stn = Break st'"
         "file_names_list st' =
            concat (map (wrap ?D)
              (foldl record_path es1 (seen_paths cfg (trace_number st1) (take n evs))))"
      by blast
    have "tracer_loop cfg (take (Suc n) (ev # evs)) st = Continue stn"
      using n(2) Continue by (simp add: st1_def)
    moreover have "tracer_iteration cfg ((ev # evs) ! Suc n) stn = Break st'"
      using n(3) by simp
    moreover have "foldl record_path es (seen_paths cfg (trace_number st) (take (Suc n) (ev # evs)))
                     = foldl record_path es1 (seen_paths cfg (trace_number st1) (take n evs))"
      by (simp add: es1_def tn cond_def)
    ultimately have "Suc n < length (ev # evs)
           \<and> tracer_loop cfg (take (Suc n) (ev # evs)) st = Continue stn
           \<and> tracer_iteration cfg ((ev # evs) ! Suc n) stn = Break st'
           \<and> file_names_list st' =
               concat (map (wrap ?D)
                 (foldl record_path es
                    (seen_paths cfg (trace_number st) (take (Suc n) (ev # evs)))))"
      using n(1,4) by simp
    then show ?thesis by blast
  qed
qed

text \<open>
  C1 (as amended). When the tracer, called with an empty list of file names, returns
  after observations in which no matching path contains the delimiter, the loop was
  left at some observation \<open>n\<close>, and the list returned is made of the matching paths
  of the observations before \<open>n\<close>, each once, in the order in which they were first
  seen, joined by single delimiters; split at the delimiters it gives these paths
  back, without duplicates.
\<close>

theorem first_seen_paths_collected:
  assumes "pgoptionfiles_tracer cfg evs [] error_list0 = Returned s"
    and "\<forall>p \<in> set (seen_paths cfg 0 evs). PGOPTIONFILES_DELIMITER cfg \<notin> set p"
  shows "\<exists>n<length evs. \<exists>st st'.
           tracer_loop cfg (take n evs) (initial_state [] error_list0) = Continue st
           \<and> tracer_iteration cfg (evs ! n) st = Break st'
           \<and> file_names_list s
               = join (PGOPTIONFILES_DELIMITER cfg) (first_seen (seen_paths cfg 0 (take n evs)))
           \<and> entries (PGOPTIONFILES_DELIMITER cfg) (file_names_list s)
               = first_seen (seen_paths cfg 0 (take n evs))
           \<and> distinct (entries (PGOPTIONFILES_DELIMITER cfg) (file_names_list s))"
proof -
  let ?D = "PGOPTIONFILES_DELIMITER cfg"
  from assms(1) obtain st' where
    st': "tracer_loop cfg evs (initial_state [] error_list0) = Break st'"
         "s = st'\<lparr>file_names_list := eliminate ?D (file_names_list st') []\<rparr>"
    by (rule returned_from_loop)
  have l0: "file_names_list (initial_state [] error_list0) = concat (map (wrap ?D) [])"
    by (simp add: initial_state_def)
  have f0: "\<forall>p \<in> set (seen_paths cfg (trace_number (initial_state [] error_list0)) evs).
              ?D \<notin> set p"
    using assms(2) by (simp add: initial_state_def)
  from loop_collects[OF st'(1) l0 _ f0] obtain n stn where
    n: "n < length evs"
       "tracer_loop cfg (take n evs) (initial_state [] error_list0) = Continue stn"
       "tracer_iteration cfg (evs ! n) stn = Break st'"
       "file_names_list st' =
          concat (map (wrap ?D) (foldl record_path [] (seen_paths cfg 0 (take n evs))))"
    by (auto simp: initial_state_def)
  let ?es = "first_seen (seen_paths cfg 0 (take n evs))"
  have "set (seen_paths cfg 0 (take n evs)) \<subseteq> set (seen_paths cfg 0 evs)"
  proof -
    have "set (seen_paths cfg tn (take k xs)) \<subseteq> set (seen_paths cfg tn xs)" for tn k xs
    proof (induction xs arbitrary: tn k)
      case Nil
      then show ?case by simp
    next
      case (Cons x xs)
      then show ?case by (cases k) auto
    qed
    then show ?thesis .
  qed
  with assms(2) seen_paths_nonempty[of cfg 0 "take n evs"]
  have es: "\<forall>e \<in> set ?es. e \<noteq> [] \<and> ?D \<notin> set e"
    by (auto simp: first_seen_set)
  have fl: "file_names_list s = join ?D ?es"
    using st'(2) n(4) eliminate_wrapped[OF es, of "[]"]
    by (simp add: first_seen_def)
  have en: "entries ?D (file_names_list s) = ?es"
    unfolding fl by (rule entries_join[OF es])
  have "distinct (entries ?D (file_names_list s))"
    unfolding en by (rule first_seen_distinct)
  with n(1,2,3) fl en show ?thesis by blast
qed

section \<open>Example sessions\<close>

lemmas event_defs = initial_sigstop_def syscall_exit_stop_def openat_etc_my_cnf_def
  etc_my_cnf_memory_def access_home_my_cnf_def subordinate_exited_def openat_my_cnf_def
  openat_newline_my_cnf_def

lemma example_run_returns: "main_tracer example_config example_run = Returned example_run_result"
  by (simp add: main_tracer_def pgoptionfiles_tracer_def initial_state_def example_run_def example_run_result_def
        example_config_def run_defs event_defs eval_defs)

lemma newline_run_returns: "main_tracer example_config newline_run = Returned newline_run_result"
  by (simp add: main_tracer_def pgoptionfiles_tracer_def initial_state_def newline_run_def newline_run_result_def
        example_config_def run_defs event_defs eval_defs)

theorem final_list_delimiters_witness:
  "main_tracer example_config example_run = Returned example_run_result
   \<and> file_names_list example_run_result = bytes ''/etc/my.cnf'' @ 10 # bytes ''/home/u/.my.cnf''
   \<and> hd (file_names_list example_run_result) \<noteq> 10
   \<and> last (file_names_list example_run_result) \<noteq> 10
   \<and> \<not> sublist [10, 10] (file_names_list example_run_result)"
proof -
  have r: "pgoptionfiles_tracer example_config example_run [] (bytes ''(pgoptionfiles)'')
             = Returned example_run_result"
    using example_run_returns by (simp add: main_tracer_def)
  have d: "PGOPTIONFILES_DELIMITER example_config = 10" by (simp add: example_config_def)
  have f: "file_names_list example_run_result
             = bytes ''/etc/my.cnf'' @ 10 # bytes ''/home/u/.my.cnf''"
    by (simp add: example_run_result_def)
  have ne: "file_names_list example_run_result \<noteq> []"
    by (simp add: example_run_result_def bytes_def)
  from final_list_delimiters[OF r] ne example_run_returns f show ?thesis
    unfolding d by blast
qed

lemma home_my_cnf_path: "entry_path example_config access_home_my_cnf = bytes ''/home/u/.my.cnf''"
  by (simp add: entry_path_def path_argument_def syscall_numbers access_home_my_cnf_def
        example_config_def eval_defs)

lemma example_run_paths:
  "seen_paths example_config 0 example_run
     = [bytes ''/etc/my.cnf'', bytes ''/home/u/.my.cnf'', bytes ''/etc/my.cnf'']"
proof -
  have m1: "matches example_config (bytes ''/etc/my.cnf'')"
    by (simp add: matches_def example_config_def bytes_def sublist_Cons_right)
  have m2: "matches example_config (bytes ''/home/u/.my.cnf'')"
    by (simp add: matches_def example_config_def bytes_def sublist_Cons_right)
  have mon: "monitored (orig_rax (getregs openat_etc_my_cnf))"
      "monitored (orig_rax (getregs access_home_my_cnf))"
    by (simp_all add: monitored_def openat_etc_my_cnf_def access_home_my_cnf_def)
  have nmon: "\<not> monitored (orig_rax (getregs subordinate_exited))"
    by (simp add: monitored_def subordinate_exited_def)
  show ?thesis
    by (simp add: example_run_def etc_my_cnf_path home_my_cnf_path m1 m2 mon nmon)
qed

theorem first_seen_paths_collected_witness:
  "main_tracer example_config example_run = Returned example_run_result
   \<and> seen_paths example_config 0 example_run
       = [bytes ''/etc/my.cnf'', bytes ''/home/u/.my.cnf'', bytes ''/etc/my.cnf'']
   \<and> 10 \<notin> set (bytes ''/etc/my.cnf'') \<and> 10 \<notin> set (bytes ''/home/u/.my.cnf'')
   \<and> entries 10 (file_names_list example_run_result)
       = [bytes ''/etc/my.cnf'', bytes ''/home/u/.my.cnf'']
   \<and> distinct (entries 10 (file_names_list example_run_result))"
proof -
  have r: "pgoptionfiles_tracer example_config example_run [] (bytes ''(pgoptionfiles)'')
             = Returned example_run_result"
    using example_run_returns by (simp add: main_tracer_def)
  have d: "PGOPTIONFILES_DELIMITER example_config = 10" by (simp add: example_config_def)
  have f1: "10 \<notin> set (bytes ''/etc/my.cnf'')" by (simp add: bytes_def)
  have f2: "10 \<notin> set (bytes ''/home/u/.my.cnf'')" by (simp add: bytes_def)
  have free: "\<forall>p \<in> set (seen_paths example_config 0 example_run).
                PGOPTIONFILES_DELIMITER example_config \<notin> set p"
    unfolding example_run_paths d using f1 f2 by simp
  have e: "entries 10 (file_names_list example_run_result)
       = [bytes ''/etc/my.cnf'', bytes ''/home/u/.my.cnf'']"
    by (simp add: entries_def example_run_result_def bytes_def)
  from first_seen_paths_collected[OF r free]
  have "distinct (entries 10 (file_names_list example_run_result))"
    unfolding d by blast
  with example_run_returns example_run_paths f1 f2 e show ?thesis by blast
qed

text \<open>
  C1 as it is written fails when a path holds the delimiter: after \<open>my.cnf\<close> and
  \<open>a\<newline>my.cnf\<close> the list returned reads \<open>my.cnf\<close>, \<open>a\<close>, \<open>my.cnf\<close>.
\<close>

theorem duplicate_entry_counterexample:
  "main_tracer example_config newline_run = Returned newline_run_result
   \<and> entries (PGOPTIONFILES_DELIMITER example_config) (file_names_list newline_run_result)
       = [bytes ''my.cnf'', bytes ''a'', bytes ''my.cnf'']
   \<and> \<not> distinct (entries (PGOPTIONFILES_DELIMITER example_config)
                     (file_names_list newline_run_result))"
proof -
  have e: "entries (PGOPTIONFILES_DELIMITER example_config) (file_names_list newline_run_result)
       = [bytes ''my.cnf'', bytes ''a'', bytes ''my.cnf'']"
    by (simp add: entries_def newline_run_result_def example_config_def bytes_def)
  have "\<not> distinct [bytes ''my.cnf'', bytes ''a'', bytes ''my.cnf'']" by simp
  with newline_run_returns e show ?thesis by simp
qed

end
